theory Spec2Isabelle
  imports Complex_Main "HOL-Library.Word"
begin

text \<open>
  A shallow embedding of \<^verbatim>\<open>attractor_cinematic.c\<close>, the renderer of chaotic attractors:
  the per-frame pipeline of \<^verbatim>\<open>main\<close> (scheduler, integrator, statistics, camera,
  rasterizer, tone mapper) and the helpers it calls, followed by the properties
  proved of them. Each definition follows the C text it is named after.
\<close>

section \<open>C floats\<close>

text \<open>
  A C \<^verbatim>\<open>float\<close> is a finite number, an infinity or a not-a-number. The model keeps
  these four kinds of value and the rules of IEEE 754 for the special ones: a
  not-a-number propagates through arithmetic and makes every comparison false,
  \<open>\<infinity> - \<infinity>\<close>, \<open>0 \<times> \<infinity>\<close>, \<open>\<infinity> / \<infinity>\<close> and \<open>0 / 0\<close> are not-a-numbers. On finite
  values the operations are those of \<^typ>\<open>real\<close>: results are exact, the rounding of
  each operation to 24 significant bits and the overflow to infinity are left out,
  and zero has no sign. Where a property rests on the rounding, which is the case
  for the cross-fade clock, the parameter smoothing and the tone mapper, the
  rounding of each operation is written out (see \<open>binary32\<close> and \<open>to_float\<close>).
\<close>

datatype cfloat = Fin real | PInf | NInf | NaN

fun isnan :: "cfloat \<Rightarrow> bool" where
  "isnan NaN = True"
| "isnan _ = False"

fun fneg :: "cfloat \<Rightarrow> cfloat" where
  "fneg (Fin a) = Fin (- a)"
| "fneg PInf = NInf"
| "fneg NInf = PInf"
| "fneg NaN = NaN"

fun fadd :: "cfloat \<Rightarrow> cfloat \<Rightarrow> cfloat" where
  "fadd (Fin a) (Fin b) = Fin (a + b)"
| "fadd NaN _ = NaN"
| "fadd _ NaN = NaN"
| "fadd PInf NInf = NaN"
| "fadd NInf PInf = NaN"
| "fadd PInf _ = PInf"
| "fadd _ PInf = PInf"
| "fadd NInf _ = NInf"
| "fadd _ NInf = NInf"

text \<open>The sign of an infinity times a finite factor; zero times infinity is not a number.\<close>

fun inf_signed :: "bool \<Rightarrow> real \<Rightarrow> cfloat" where
  "inf_signed pos a =
     (if a = 0 then NaN else if (0 < a) = pos then PInf else NInf)"

fun fmul :: "cfloat \<Rightarrow> cfloat \<Rightarrow> cfloat" where
  "fmul (Fin a) (Fin b) = Fin (a * b)"
| "fmul NaN _ = NaN"
| "fmul _ NaN = NaN"
| "fmul PInf (Fin b) = inf_signed True b"
| "fmul NInf (Fin b) = inf_signed False b"
| "fmul (Fin a) PInf = inf_signed True a"
| "fmul (Fin a) NInf = inf_signed False a"
| "fmul PInf PInf = PInf"
| "fmul NInf NInf = PInf"
| "fmul PInf NInf = NInf"
| "fmul NInf PInf = NInf"

text \<open>
  Division: a finite non-zero dividend over zero is an infinity (the zero divisor
  counts as \<open>+0\<close>, which is what the conversion of the integer 0 gives), \<open>0 / 0\<close> is
  not a number, and a finite dividend over an infinity is zero.
\<close>

fun fdiv :: "cfloat \<Rightarrow> cfloat \<Rightarrow> cfloat" where
  "fdiv (Fin a) (Fin b) =
     (if b \<noteq> 0 then Fin (a / b)
      else if 0 < a then PInf else if a < 0 then NInf else NaN)"
| "fdiv NaN _ = NaN"
| "fdiv _ NaN = NaN"
| "fdiv (Fin a) _ = Fin 0"
| "fdiv PInf (Fin b) = (if 0 \<le> b then PInf else NInf)"
| "fdiv NInf (Fin b) = (if 0 \<le> b then NInf else PInf)"
| "fdiv _ _ = NaN"

fun fabs :: "cfloat \<Rightarrow> cfloat" where
  "fabs (Fin a) = Fin \<bar>a\<bar>"
| "fabs PInf = PInf"
| "fabs NInf = PInf"
| "fabs NaN = NaN"

fun flt :: "cfloat \<Rightarrow> cfloat \<Rightarrow> bool" where
  "flt (Fin a) (Fin b) = (a < b)"
| "flt NaN _ = False"
| "flt _ NaN = False"
| "flt PInf _ = False"
| "flt _ NInf = False"
| "flt _ _ = True"

fun fle :: "cfloat \<Rightarrow> cfloat \<Rightarrow> bool" where
  "fle (Fin a) (Fin b) = (a \<le> b)"
| "fle NaN _ = False"
| "fle _ NaN = False"
| "fle NInf _ = True"
| "fle _ PInf = True"
| "fle _ _ = False"

fun sqrtf :: "cfloat \<Rightarrow> cfloat" where
  "sqrtf (Fin a) = (if 0 \<le> a then Fin (sqrt a) else NaN)"
| "sqrtf PInf = PInf"
| "sqrtf _ = NaN"

fun sinf :: "cfloat \<Rightarrow> cfloat" where
  "sinf (Fin a) = Fin (sin a)"
| "sinf _ = NaN"

fun cosf :: "cfloat \<Rightarrow> cfloat" where
  "cosf (Fin a) = Fin (cos a)"
| "cosf _ = NaN"


text \<open>
  The C operators on \<^verbatim>\<open>float\<close> are written with the usual symbols. The order is
  IEEE's, so it is not reflexive at a not-a-number; only the syntax is instantiated.
\<close>

instantiation cfloat :: "{plus, minus, uminus, times, inverse, abs, ord}"
begin

definition plus_cfloat :: "cfloat \<Rightarrow> cfloat \<Rightarrow> cfloat" where
  "plus_cfloat a b = fadd a b"

definition minus_cfloat :: "cfloat \<Rightarrow> cfloat \<Rightarrow> cfloat" where
  "minus_cfloat a b = fadd a (fneg b)"

definition uminus_cfloat :: "cfloat \<Rightarrow> cfloat" where
  "uminus_cfloat a = fneg a"

definition times_cfloat :: "cfloat \<Rightarrow> cfloat \<Rightarrow> cfloat" where
  "times_cfloat a b = fmul a b"

definition divide_cfloat :: "cfloat \<Rightarrow> cfloat \<Rightarrow> cfloat" where
  "divide_cfloat a b = fdiv a b"

definition inverse_cfloat :: "cfloat \<Rightarrow> cfloat" where
  "inverse_cfloat a = fdiv (Fin 1) a"

definition abs_cfloat :: "cfloat \<Rightarrow> cfloat" where
  "abs_cfloat a = fabs a"

definition less_cfloat :: "cfloat \<Rightarrow> cfloat \<Rightarrow> bool" where
  "less_cfloat a b = flt a b"

definition less_eq_cfloat :: "cfloat \<Rightarrow> cfloat \<Rightarrow> bool" where
  "less_eq_cfloat a b = fle a b"

instance ..

end

text \<open>The conversion of a C \<^verbatim>\<open>int\<close> to \<^verbatim>\<open>float\<close>.\<close>

definition float_of_int :: "int \<Rightarrow> cfloat" where
  "float_of_int n = Fin (of_int n)"

section \<open>C integers\<close>

text \<open>
  The program's counters are C \<^verbatim>\<open>int\<close>s. They are modelled as \<^typ>\<open>int\<close>; where a
  product can leave the 32-bit range the wrap-around is written out with \<open>wrap_int32\<close>.
  C's \<^verbatim>\<open>%\<close> truncates towards zero, so the remainder takes the sign of the dividend;
  HOL's \<open>mod\<close> does not. A zero divisor is undefined behaviour in C: the frame loop
  only runs while \<^verbatim>\<open>frame < fragments * frames_per_fragment\<close>, which forces
  \<^verbatim>\<open>frames_per_fragment\<close> to be non-zero, and every other divisor is a constant.
\<close>

definition wrap_int32 :: "int \<Rightarrow> int" where
  "wrap_int32 n = signed_take_bit 31 n"

definition c_rem :: "int \<Rightarrow> int \<Rightarrow> int" where
  "c_rem a b = sgn a * (\<bar>a\<bar> mod \<bar>b\<bar>)"

definition c_div :: "int \<Rightarrow> int \<Rightarrow> int" where
  "c_div a b = sgn a * sgn b * (\<bar>a\<bar> div \<bar>b\<bar>)"

section \<open>Configuration\<close>

definition WIDTH :: int where "WIDTH = 1920"
definition HEIGHT :: int where "HEIGHT = 1080"
definition NUM_PARTICLES :: int where "NUM_PARTICLES = 2000000"
definition DT :: cfloat where "DT = Fin 0.012"
definition MAX_COORD :: cfloat where "MAX_COORD = Fin 80"

definition TYPE_AIZAWA :: int where "TYPE_AIZAWA = 0"
definition TYPE_THOMAS :: int where "TYPE_THOMAS = 1"
definition TYPE_LORENZ :: int where "TYPE_LORENZ = 2"
definition TYPE_HALVORSEN :: int where "TYPE_HALVORSEN = 3"
definition TYPE_CHEN :: int where "TYPE_CHEN = 4"
definition NUM_TYPES :: int where "NUM_TYPES = 5"
definition TRANSITION_FRAMES :: int where "TRANSITION_FRAMES = 120"



text \<open>The struct \<^verbatim>\<open>Params\<close>, fields \<^verbatim>\<open>a\<close> to \<^verbatim>\<open>f\<close>.\<close>

record Params =
  p_a :: cfloat
  p_b :: cfloat
  p_c :: cfloat
  p_d :: cfloat
  p_e :: cfloat
  p_f :: cfloat

section \<open>The heatmap\<close>

text \<open>
  \<^verbatim>\<open>get_heatmap_color\<close> clamps its argument and then takes one of four branches. The
  branches are named so that each can be evaluated on its own; the results
  \<^verbatim>\<open>*r\<close>, \<^verbatim>\<open>*g\<close>, \<^verbatim>\<open>*b\<close> are returned as a triple.
\<close>

definition heat_seg1 :: "cfloat \<Rightarrow> cfloat \<times> cfloat \<times> cfloat" where
  "heat_seg1 t = (Fin 0, t * Fin 5, Fin 1)"

definition heat_seg2 :: "cfloat \<Rightarrow> cfloat \<times> cfloat \<times> cfloat" where
  "heat_seg2 t = (Fin 0, Fin 1, Fin 1 - (t - Fin 0.2) * Fin 3.3)"

definition heat_seg3 :: "cfloat \<Rightarrow> cfloat \<times> cfloat \<times> cfloat" where
  "heat_seg3 t = ((t - Fin 0.5) * Fin 3.3, Fin 1, Fin 0)"

definition heat_seg4 :: "cfloat \<Rightarrow> cfloat \<times> cfloat \<times> cfloat" where
  "heat_seg4 t = (Fin 1, Fin 1 - (t - Fin 0.8) * Fin 5, (t - Fin 0.8) * Fin 5)"

definition heat_clamp :: "cfloat \<Rightarrow> cfloat" where
  "heat_clamp t =
     (let t1 = (if t < Fin 0 then Fin 0 else t) in
      if t1 > Fin 1 then Fin 1 else t1)"

definition get_heatmap_color :: "cfloat \<Rightarrow> cfloat \<times> cfloat \<times> cfloat" where
  "get_heatmap_color t0 =
     (let t = heat_clamp t0 in
      if t < Fin 0.2 then heat_seg1 t
      else if t < Fin 0.5 then heat_seg2 t
      else if t < Fin 0.8 then heat_seg3 t
      else heat_seg4 t)"

section \<open>Target parameters\<close>


definition zero_params :: Params where
  "zero_params = \<lparr>p_a = Fin 0, p_b = Fin 0, p_c = Fin 0, p_d = Fin 0, p_e = Fin 0, p_f = Fin 0\<rparr>"


section \<open>Rounding to binary32\<close>

text \<open>
  The value a real number takes when it is stored in a \<^verbatim>\<open>float\<close>: the nearest
  multiple of \<open>2\<^sup>e\<close>, ties to the even multiple, where \<open>2\<^sup>e\<close> is the spacing of the
  binary32 numbers around it (24 significant bits, never finer than \<open>2\<^sup>-\<^sup>1\<^sup>4\<^sup>9\<close>).
  \<open>grid_exp\<close> searches that exponent upwards from the subnormal spacing; the coarsest
  spacing of the format is \<open>2\<^sup>1\<^sup>0\<^sup>4\<close>.
\<close>

function grid_exp :: "int \<Rightarrow> real \<Rightarrow> int" where
  "grid_exp e x = (if 104 \<le> e \<or> \<bar>x\<bar> < 2 powi (e + 24) then e else grid_exp (e + 1) x)"
  by pat_completeness auto
termination
  by (relation "measure (\<lambda>(e, x). nat (104 - e))") auto

declare grid_exp.simps [simp del]

definition round_even :: "real \<Rightarrow> int" where
  "round_even y =
     (let n = \<lfloor>y\<rfloor>; d = y - of_int n in
      if d < 1 / 2 then n else if 1 / 2 < d then n + 1
      else if even n then n else n + 1)"

definition binary32 :: "real \<Rightarrow> real" where
  "binary32 x = (let e = grid_exp (- 149) x in of_int (round_even (x / 2 powi e)) * 2 powi e)"

definition FLT_MAX :: real where
  "FLT_MAX = (2 ^ 24 - 1) * 2 ^ 104"

text \<open>A result beyond the largest binary32 number becomes an infinity.\<close>

fun to_float :: "cfloat \<Rightarrow> cfloat" where
  "to_float (Fin x) =
     (let r = binary32 x in
      if FLT_MAX < r then PInf else if r < - FLT_MAX then NInf else Fin r)"
| "to_float c = c"

section \<open>The fragment and type-cycling scheduler\<close>

text \<open>
  The scheduler's variables of \<^verbatim>\<open>main\<close>: the two type identifiers, the fragment
  counter \<^verbatim>\<open>algo_timer\<close> and the cross-fade weight.
\<close>

record sched =
  current_type :: int
  previous_type :: int
  algo_timer :: int
  transition_blend :: cfloat

text \<open>The state \<^verbatim>\<open>main\<close> sets up before the frame loop.\<close>

definition sched_init :: "int \<Rightarrow> sched" where
  "sched_init start_type =
     \<lparr>current_type = start_type, previous_type = start_type,
      algo_timer = 0, transition_blend = Fin 1\<rparr>"

text \<open>
  The head of the loop body: at a fragment boundary the counter is incremented,
  and when it reaches 6 the type advances. The fresh target parameters drawn there
  are random and belong to the parameter state, not to this record.
\<close>

definition type_cycle :: "int \<Rightarrow> int \<Rightarrow> sched \<Rightarrow> sched" where
  "type_cycle frames_per_fragment frame s =
     (if c_rem frame frames_per_fragment = 0 then
        (let s1 = s\<lparr>algo_timer := algo_timer s + 1\<rparr> in
         if algo_timer s1 \<ge> 6 then
           s1\<lparr>previous_type := current_type s1,
              current_type := c_rem (current_type s1 + 1) NUM_TYPES,
              algo_timer := 0,
              transition_blend := Fin 0\<rparr>
         else s1)
      else s)"


text \<open>
  The same statement as the machine evaluates it: the difference, the product and
  the sum are three \<^verbatim>\<open>float\<close> operations, each rounded to binary32.
\<close>

definition lerp_f32 :: "cfloat \<Rightarrow> cfloat \<Rightarrow> cfloat \<Rightarrow> cfloat" where
  "lerp_f32 cur target lerp = to_float (cur + to_float (to_float (target - cur) * lerp))"

text \<open>
  The parameter smoothing of the loop body, applied to each of the six fields;
  \<^verbatim>\<open>lerp\<close> holds the constant \<^verbatim>\<open>0.02f\<close>, the binary32 number nearest to 0.02.
\<close>

definition params_lerp :: "Params \<Rightarrow> Params \<Rightarrow> Params" where
  "params_lerp cur_p target_p =
     (let lerp = to_float (Fin 0.02) in
      \<lparr>p_a = lerp_f32 (p_a cur_p) (p_a target_p) lerp,
       p_b = lerp_f32 (p_b cur_p) (p_b target_p) lerp,
       p_c = lerp_f32 (p_c cur_p) (p_c target_p) lerp,
       p_d = lerp_f32 (p_d cur_p) (p_d target_p) lerp,
       p_e = lerp_f32 (p_e cur_p) (p_e target_p) lerp,
       p_f = lerp_f32 (p_f cur_p) (p_f target_p) lerp\<rparr>)"

text \<open>
  The cross-fade clock. The claim about it is about the exact value after a number
  of additions, so the two operations are rounded to binary32 as the machine does:
  the constant \<^verbatim>\<open>1.0f / TRANSITION_FRAMES\<close> and the sum stored back.
\<close>

definition blend_progress :: "cfloat \<Rightarrow> cfloat" where
  "blend_progress blend =
     (if blend < Fin 1 then
        (let b1 = to_float (blend + to_float (Fin 1 / float_of_int TRANSITION_FRAMES)) in
         if b1 > Fin 1 then Fin 1 else b1)
      else blend)"

text \<open>
  The scheduler's part of one iteration of the frame loop, and the state after the
  first \<open>n\<close> iterations (frames \<open>0\<close> to \<open>n - 1\<close>).
\<close>

definition sched_frame :: "int \<Rightarrow> int \<Rightarrow> sched \<Rightarrow> sched" where
  "sched_frame frames_per_fragment frame s =
     (let s1 = type_cycle frames_per_fragment frame s in
      s1\<lparr>transition_blend := blend_progress (transition_blend s1)\<rparr>)"

fun sched_run :: "int \<Rightarrow> int \<Rightarrow> nat \<Rightarrow> sched" where
  "sched_run frames_per_fragment start_type 0 = sched_init start_type"
| "sched_run frames_per_fragment start_type (Suc n) =
     sched_frame frames_per_fragment (int n) (sched_run frames_per_fragment start_type n)"

text \<open>A type change happens in frame \<open>f\<close> when that iteration alters \<^verbatim>\<open>current_type\<close>.\<close>

definition type_change_at :: "int \<Rightarrow> int \<Rightarrow> nat \<Rightarrow> bool" where
  "type_change_at frames_per_fragment start_type f =
     (current_type (sched_run frames_per_fragment start_type (Suc f))
        \<noteq> current_type (sched_run frames_per_fragment start_type f))"

section \<open>The integrator\<close>

text \<open>
  The derivative of one attractor at a point. The loop body evaluates it twice, for
  \<^verbatim>\<open>current_type\<close> and for \<^verbatim>\<open>previous_type\<close>, with the same chain of comparisons
  and with \<^verbatim>\<open>cur_p\<close> both times; a type outside the five leaves the initial zeros.
\<close>

definition attractor_velocity ::
    "int \<Rightarrow> Params \<Rightarrow> cfloat \<Rightarrow> cfloat \<Rightarrow> cfloat \<Rightarrow> cfloat \<times> cfloat \<times> cfloat" where
  "attractor_velocity ty cur_p x y z =
     (if ty = TYPE_AIZAWA then
        ((z - p_b cur_p) * x - p_d cur_p * y,
         p_d cur_p * x + (z - p_b cur_p) * y,
         p_c cur_p + p_a cur_p * z - (z * z * z) / Fin 3
           - (x * x + y * y) * (Fin 1 + p_e cur_p * z) + p_f cur_p * z * x * x * x)
      else if ty = TYPE_THOMAS then
        (sinf y - p_b cur_p * x, sinf z - p_b cur_p * y, sinf x - p_b cur_p * z)
      else if ty = TYPE_LORENZ then
        (p_a cur_p * (y - x), x * (p_b cur_p - z) - y, x * y - p_c cur_p * z)
      else if ty = TYPE_HALVORSEN then
        ((- p_a cur_p) * x - Fin 4 * y - Fin 4 * z - y * y,
         (- p_a cur_p) * y - Fin 4 * z - Fin 4 * x - z * z,
         (- p_a cur_p) * z - Fin 4 * x - Fin 4 * y - x * x)
      else if ty = TYPE_CHEN then
        (p_a cur_p * (y - x),
         (p_c cur_p - p_a cur_p) * x - x * z + p_c cur_p * y,
         x * y - p_b cur_p * z)
      else (Fin 0, Fin 0, Fin 0))"

text \<open>One particle: position and the velocity stored beside it.\<close>

record particle =
  pos_x :: cfloat
  pos_y :: cfloat
  pos_z :: cfloat
  vel_x :: cfloat
  vel_y :: cfloat
  vel_z :: cfloat

text \<open>
  The respawn hash of particle \<open>i\<close>. The product \<^verbatim>\<open>i * 1327\<close> is a 32-bit \<^verbatim>\<open>int\<close>
  product, so it wraps, and \<^verbatim>\<open>%\<close> keeps the sign of the wrapped product.
\<close>

definition respawn_hash :: "int \<Rightarrow> cfloat" where
  "respawn_hash i = float_of_int (c_rem (wrap_int32 (i * 1327)) 1000) / Fin 1000"

text \<open>
  The bounds check that follows the Euler step, applied to the advanced position
  \<open>(x, y, z)\<close> and the blended derivative \<open>(dx, dy, dz)\<close>; the result is what the loop
  body stores for particle \<open>i\<close>.
\<close>

definition out_of_bounds :: "cfloat \<Rightarrow> cfloat \<Rightarrow> cfloat \<Rightarrow> bool" where
  "out_of_bounds x y z =
     (\<bar>x\<bar> > MAX_COORD \<or> \<bar>y\<bar> > MAX_COORD \<or> \<bar>z\<bar> > MAX_COORD \<or> isnan x)"

definition bounds_check ::
    "int \<Rightarrow> cfloat \<Rightarrow> cfloat \<Rightarrow> cfloat \<Rightarrow> cfloat \<Rightarrow> cfloat \<Rightarrow> cfloat \<Rightarrow> particle" where
  "bounds_check i x y z dx dy dz =
     (if out_of_bounds x y z then
        (let hash = respawn_hash i in
         \<lparr>pos_x = (hash - Fin 0.5) * Fin 4, pos_y = (hash - Fin 0.5) * Fin 4,
          pos_z = (hash - Fin 0.5) * Fin 4,
          vel_x = Fin 0, vel_y = Fin 0, vel_z = Fin 0\<rparr>)
      else \<lparr>pos_x = x, pos_y = y, pos_z = z, vel_x = dx, vel_y = dy, vel_z = dz\<rparr>)"

text \<open>The body of the physics loop for particle \<open>i\<close> at position \<open>(x, y, z)\<close>.\<close>

definition particle_update ::
    "int \<Rightarrow> int \<Rightarrow> Params \<Rightarrow> cfloat \<Rightarrow> int \<Rightarrow> cfloat \<Rightarrow> cfloat \<Rightarrow> cfloat \<Rightarrow> particle" where
  "particle_update cur_ty prev_ty cur_p blend i x y z =
     (case attractor_velocity cur_ty cur_p x y z of (dx_cur, dy_cur, dz_cur) \<Rightarrow>
      case attractor_velocity prev_ty cur_p x y z of (dx_prev, dy_prev, dz_prev) \<Rightarrow>
        (let dx = dx_prev + (dx_cur - dx_prev) * blend;
             dy = dy_prev + (dy_cur - dy_prev) * blend;
             dz = dz_prev + (dz_cur - dz_prev) * blend
         in bounds_check i (x + dx * DT) (y + dy * DT) (z + dz * DT) dx dy dz))"

text \<open>
  The six arrays \<^verbatim>\<open>h_x\<close> to \<^verbatim>\<open>h_vz\<close>, indexed from 0. The physics loop visits every
  index below \<^verbatim>\<open>num_particles\<close>, and each iteration reads and writes its own index
  only, so the parallel loop is the pointwise update.
\<close>

record particles =
  h_x :: "nat \<Rightarrow> cfloat"
  h_y :: "nat \<Rightarrow> cfloat"
  h_z :: "nat \<Rightarrow> cfloat"
  h_vx :: "nat \<Rightarrow> cfloat"
  h_vy :: "nat \<Rightarrow> cfloat"
  h_vz :: "nat \<Rightarrow> cfloat"


text \<open>
  The first half of that body on its own: the position the Euler step reaches and
  the blended derivative, which are what the bounds check receives.
\<close>

definition euler_step ::
    "int \<Rightarrow> int \<Rightarrow> Params \<Rightarrow> cfloat \<Rightarrow> cfloat \<Rightarrow> cfloat \<Rightarrow> cfloat
       \<Rightarrow> (cfloat \<times> cfloat \<times> cfloat) \<times> (cfloat \<times> cfloat \<times> cfloat)" where
  "euler_step cur_ty prev_ty cur_p blend x y z =
     (case attractor_velocity cur_ty cur_p x y z of (dx_cur, dy_cur, dz_cur) \<Rightarrow>
      case attractor_velocity prev_ty cur_p x y z of (dx_prev, dy_prev, dz_prev) \<Rightarrow>
        (let dx = dx_prev + (dx_cur - dx_prev) * blend;
             dy = dy_prev + (dy_cur - dy_prev) * blend;
             dz = dz_prev + (dz_cur - dz_prev) * blend
         in ((x + dx * DT, y + dy * DT, z + dz * DT), (dx, dy, dz))))"

section \<open>The frame loop\<close>










section \<open>The statistics passes\<close>

definition sample_stride :: nat where "sample_stride = 100"

text \<open>
  The first strided loop, from index \<open>i\<close> on: the sums of the rotated \<open>x\<close> and of \<open>y\<close>
  and the largest speed. The reductions are taken in index order; on exact values
  the order does not matter.
\<close>

function stats_pass1 ::
    "cfloat \<Rightarrow> cfloat \<Rightarrow> nat \<Rightarrow> particles \<Rightarrow> nat \<Rightarrow> cfloat \<times> cfloat \<times> cfloat
       \<Rightarrow> cfloat \<times> cfloat \<times> cfloat" where
  "stats_pass1 cos_t sin_t num_particles ps i (sum_x, sum_y, max_spd) =
     (if i < num_particles then
        (let x = h_x ps i; z = h_z ps i; y = h_y ps i;
             rx = x * cos_t - z * sin_t;
             ry = y;
             spd = sqrtf (h_vx ps i * h_vx ps i + h_vy ps i * h_vy ps i
                            + h_vz ps i * h_vz ps i)
         in stats_pass1 cos_t sin_t num_particles ps (i + sample_stride)
              (sum_x + rx, sum_y + ry, if spd > max_spd then spd else max_spd))
      else (sum_x, sum_y, max_spd))"
  by pat_completeness auto
termination
  by (relation "measure (\<lambda>(c, s, n, ps, i, acc). n - i)") (auto simp: sample_stride_def)

declare stats_pass1.simps [simp del]

text \<open>The second strided loop: the sums of the absolute deviations from the centre.\<close>

function stats_pass2 ::
    "cfloat \<Rightarrow> cfloat \<Rightarrow> nat \<Rightarrow> particles \<Rightarrow> cfloat \<Rightarrow> cfloat \<Rightarrow> nat \<Rightarrow> cfloat \<times> cfloat
       \<Rightarrow> cfloat \<times> cfloat" where
  "stats_pass2 cos_t sin_t num_particles ps center_x center_y i (sum_dist_x, sum_dist_y) =
     (if i < num_particles then
        (let x = h_x ps i; z = h_z ps i; y = h_y ps i;
             rx = x * cos_t - z * sin_t;
             ry = y
         in stats_pass2 cos_t sin_t num_particles ps center_x center_y (i + sample_stride)
              (sum_dist_x + \<bar>rx - center_x\<bar>, sum_dist_y + \<bar>ry - center_y\<bar>))
      else (sum_dist_x, sum_dist_y))"
  by pat_completeness auto
termination
  by (relation "measure (\<lambda>(c, s, n, ps, cx, cy, i, acc). n - i)") (auto simp: sample_stride_def)

declare stats_pass2.simps [simp del]

record stats =
  center_x :: cfloat
  center_y :: cfloat
  mean_dist_x :: cfloat
  mean_dist_y :: cfloat
  max_spd :: cfloat

text \<open>
  The statistics of one frame. Both sums are divided by
  \<^verbatim>\<open>num_samples = num_particles / sample_stride\<close>, an integer division.
\<close>

definition frame_stats :: "int \<Rightarrow> nat \<Rightarrow> particles \<Rightarrow> stats" where
  "frame_stats frame num_particles ps =
     (let theta = float_of_int frame * Fin 0.005;
          cos_t = cosf theta;
          sin_t = sinf theta;
          num_samples = num_particles div sample_stride
      in case stats_pass1 cos_t sin_t num_particles ps 0 (Fin 0, Fin 0, Fin 0) of
           (sum_x, sum_y, max_spd1) \<Rightarrow>
             (let cx = sum_x / float_of_int (int num_samples);
                  cy = sum_y / float_of_int (int num_samples)
              in case stats_pass2 cos_t sin_t num_particles ps cx cy 0 (Fin 0, Fin 0) of
                   (sum_dist_x, sum_dist_y) \<Rightarrow>
                     \<lparr>center_x = cx, center_y = cy,
                      mean_dist_x = sum_dist_x / float_of_int (int num_samples),
                      mean_dist_y = sum_dist_y / float_of_int (int num_samples),
                      max_spd = max_spd1\<rparr>))"

text \<open>
  The particle set in which every particle sits at the same point with the same
  velocity; the degenerate input of the camera claims.
\<close>

definition uniform_particles :: "real \<Rightarrow> real \<Rightarrow> real \<Rightarrow> particles" where
  "uniform_particles x y z =
     \<lparr>h_x = (\<lambda>i. Fin x), h_y = (\<lambda>i. Fin y), h_z = (\<lambda>i. Fin z),
      h_vx = (\<lambda>i. Fin 0), h_vy = (\<lambda>i. Fin 0), h_vz = (\<lambda>i. Fin 0)\<rparr>"

text \<open>A particle set all of whose coordinates and velocities are finite numbers.\<close>

definition finite_particles ::
    "(nat \<Rightarrow> real) \<Rightarrow> (nat \<Rightarrow> real) \<Rightarrow> (nat \<Rightarrow> real) \<Rightarrow> (nat \<Rightarrow> real) \<Rightarrow> (nat \<Rightarrow> real)
       \<Rightarrow> (nat \<Rightarrow> real) \<Rightarrow> particles" where
  "finite_particles X Y Z U V W =
     \<lparr>h_x = (\<lambda>i. Fin (X i)), h_y = (\<lambda>i. Fin (Y i)), h_z = (\<lambda>i. Fin (Z i)),
      h_vx = (\<lambda>i. Fin (U i)), h_vy = (\<lambda>i. Fin (V i)), h_vz = (\<lambda>i. Fin (W i))\<rparr>"

section \<open>The camera\<close>

record camera =
  cam_scale :: cfloat
  cam_cx :: cfloat
  cam_cy :: cfloat
  smooth_max_spd :: cfloat









section \<open>Rasterization\<close>

text \<open>
  The conversion of a \<^verbatim>\<open>float\<close> to \<^verbatim>\<open>int\<close> truncates towards zero; it is undefined
  when the truncated value is not an \<^verbatim>\<open>int\<close>, which the model returns as \<open>None\<close>.
\<close>

definition c_trunc :: "real \<Rightarrow> int" where
  "c_trunc v = (if 0 \<le> v then \<lfloor>v\<rfloor> else \<lceil>v\<rceil>)"

fun int_of_float :: "cfloat \<Rightarrow> int option" where
  "int_of_float (Fin v) =
     (if - (2 ^ 31) \<le> c_trunc v \<and> c_trunc v < 2 ^ 31 then Some (c_trunc v) else None)"
| "int_of_float _ = None"

definition depth_fade :: "cfloat \<Rightarrow> cfloat" where
  "depth_fade rz = Fin 1 / (Fin 1 + \<bar>rz\<bar> * Fin 0.01)"

text \<open>
  What a particle of normalised speed \<open>t\<close> and rotated depth \<open>rz\<close> adds to the three
  channels of its pixel.
\<close>

definition particle_contribution :: "cfloat \<Rightarrow> cfloat \<Rightarrow> cfloat \<times> cfloat \<times> cfloat" where
  "particle_contribution t rz =
     (case get_heatmap_color t of (r, g, b) \<Rightarrow>
        (r * depth_fade rz, g * depth_fade rz, b * depth_fade rz))"

text \<open>
  The body of the render loop for particle \<open>i\<close>: the pixel index and the
  contribution, or nothing when the particle projects outside the frame.
\<close>

datatype raster = Undefined_cast | Dropped | Hit nat "cfloat \<times> cfloat \<times> cfloat"

definition render_particle :: "cfloat \<Rightarrow> cfloat \<Rightarrow> camera \<Rightarrow> particles \<Rightarrow> nat \<Rightarrow> raster" where
  "render_particle cos_t sin_t cam ps i =
     (let x = h_x ps i; y = h_y ps i; z = h_z ps i;
          rx = x * cos_t - z * sin_t;
          rz = x * sin_t + z * cos_t;
          ry = y
      in case (int_of_float ((rx - cam_cx cam) * cam_scale cam + float_of_int (c_div WIDTH 2)),
               int_of_float ((ry - cam_cy cam) * cam_scale cam + float_of_int (c_div HEIGHT 2))) of
           (Some px, Some py) \<Rightarrow>
             if px \<ge> 0 \<and> px < WIDTH \<and> py \<ge> 0 \<and> py < HEIGHT then
               (let spd = sqrtf (h_vx ps i * h_vx ps i + h_vy ps i * h_vy ps i
                                  + h_vz ps i * h_vz ps i);
                    t = spd / smooth_max_spd cam
                in Hit (nat ((py * WIDTH + px) * 3)) (particle_contribution t rz))
             else Dropped
         | _ \<Rightarrow> Undefined_cast)"

text \<open>The three atomic additions into the accumulation buffer.\<close>

definition accumulate ::
    "nat \<Rightarrow> cfloat \<times> cfloat \<times> cfloat \<Rightarrow> (nat \<Rightarrow> cfloat) \<Rightarrow> (nat \<Rightarrow> cfloat)" where
  "accumulate idx c accum_buffer =
     (case c of (cr, cg, cb) \<Rightarrow>
        accum_buffer(idx := accum_buffer idx + cr,
                     idx + 1 := accum_buffer (idx + 1) + cg,
                     idx + 2 := accum_buffer (idx + 2) + cb))"

text \<open>
  The accumulation buffer after the particles below \<open>n\<close> have been rendered into the
  cleared buffer, or \<open>None\<close> if a cast was undefined.
\<close>

fun render_upto ::
    "cfloat \<Rightarrow> cfloat \<Rightarrow> camera \<Rightarrow> particles \<Rightarrow> nat \<Rightarrow> (nat \<Rightarrow> cfloat) option" where
  "render_upto cos_t sin_t cam ps 0 = Some (\<lambda>i. Fin 0)"
| "render_upto cos_t sin_t cam ps (Suc n) =
     (case render_upto cos_t sin_t cam ps n of
        None \<Rightarrow> None
      | Some accum_buffer \<Rightarrow>
          (case render_particle cos_t sin_t cam ps n of
             Undefined_cast \<Rightarrow> None
           | Dropped \<Rightarrow> Some accum_buffer
           | Hit idx c \<Rightarrow> Some (accumulate idx c accum_buffer)))"

section \<open>Tone mapping\<close>







text \<open>
  The number of fragment boundaries among the first \<open>n\<close> frames; used to describe the
  counter \<^verbatim>\<open>algo_timer\<close> in closed form.
\<close>

definition boundaries :: "int \<Rightarrow> nat \<Rightarrow> int" where
  "boundaries fpf n = (int n + fpf - 1) div fpf"

section \<open>Float operations: simplification rules\<close>

lemmas cfloat_ops = plus_cfloat_def minus_cfloat_def uminus_cfloat_def times_cfloat_def
  divide_cfloat_def abs_cfloat_def less_cfloat_def less_eq_cfloat_def

section \<open>The scheduler: proofs\<close>

lemma pred_div:
  assumes "0 < (b::int)"
  shows "(a - 1) div b = (if a mod b = 0 then a div b - 1 else a div b)"
proof -
  have a: "a = b * (a div b) + a mod b" by simp
  have r: "0 \<le> a mod b" "a mod b < b" using assms by simp_all
  show ?thesis
  proof (cases "a mod b = 0")
    case True
    have "a - 1 = b * (a div b - 1) + (b - 1)" using a True by (simp add: algebra_simps)
    then have "(a - 1) div b = a div b - 1"
      by (rule int_div_pos_eq) (use assms in simp_all)
    then show ?thesis using True by simp
  next
    case False
    have "a - 1 = b * (a div b) + (a mod b - 1)" using a by (simp add: algebra_simps)
    then have "(a - 1) div b = a div b"
      by (rule int_div_pos_eq) (use assms r False in simp_all)
    then show ?thesis using False by simp
  qed
qed

lemma boundaries_Suc:
  assumes "0 < fpf"
  shows "boundaries fpf (Suc n) = (if int n mod fpf = 0 then boundaries fpf n + 1 else boundaries fpf n)"
proof -
  have 1: "boundaries fpf (Suc n) = int n div fpf + 1"
    using assms by (simp add: boundaries_def)
  have "int n + fpf - 1 = (int n - 1) + fpf" by simp
  then have 2: "boundaries fpf n = (int n - 1) div fpf + 1"
    unfolding boundaries_def using assms by (metis div_add_self2 less_irrefl)
  show ?thesis using 1 2 pred_div[OF assms, of "int n"] by simp
qed

lemma c_rem_nonneg: "0 \<le> a \<Longrightarrow> 0 < b \<Longrightarrow> c_rem a b = a mod b"
  by (cases "a = 0") (auto simp: c_rem_def)

lemma c_rem_succ_neq: "c_rem (c + 1) NUM_TYPES \<noteq> c"
proof
  assume h: "c_rem (c + 1) NUM_TYPES = c"
  show False
  proof (cases "0 \<le> c + 1")
    case True
    then have "c_rem (c + 1) NUM_TYPES = (c + 1) mod 5"
      by (simp add: c_rem_nonneg NUM_TYPES_def)
    with h show False by presburger
  next
    case False
    then have "c_rem (c + 1) NUM_TYPES = - ((- (c + 1)) mod 5)"
      by (simp add: c_rem_def NUM_TYPES_def)
    with h False show False by presburger
  qed
qed

lemma mod6_step:
  "(5 \<le> (b::int) mod 6 \<longrightarrow> (b + 1) mod 6 = 0) \<and>
   (\<not> 5 \<le> b mod 6 \<longrightarrow> b mod 6 + 1 = (b + 1) mod 6)"
  by presburger

lemma timer_run:
  assumes "0 < fpf"
  shows "algo_timer (sched_run fpf st n) = boundaries fpf n mod 6"
proof (induction n)
  case 0
  with assms show ?case by (simp add: sched_init_def boundaries_def)
next
  case (Suc n)
  show ?case
    using assms Suc mod6_step[of "boundaries fpf n"]
    by (simp add: sched_frame_def type_cycle_def Let_def c_rem_nonneg boundaries_Suc)
qed

lemma type_change_iff:
  assumes "0 < fpf"
  shows "type_change_at fpf st f \<longleftrightarrow> int f mod fpf = 0 \<and> (int f div fpf) mod 6 = 5"
proof -
  have b: "int f mod fpf = 0 \<Longrightarrow> boundaries fpf f = int f div fpf"
    using boundaries_Suc[OF assms, of f] assms by (simp add: boundaries_def)
  have m: "(x::int) mod 6 = 5 \<longleftrightarrow> 5 \<le> x mod 6" for x by presburger
  show ?thesis
    using assms c_rem_succ_neq[of "current_type (sched_run fpf st f)"] b
    by (auto simp: type_change_at_def sched_frame_def type_cycle_def Let_def c_rem_nonneg
          timer_run m)
qed


lemma current_type_nonneg:
  assumes "0 < fpf" "0 \<le> st"
  shows "0 \<le> current_type (sched_run fpf st n)"
proof (induction n)
  case 0
  with assms show ?case by (simp add: sched_init_def)
next
  case (Suc n)
  then show ?case
    by (simp add: sched_frame_def type_cycle_def Let_def c_rem_nonneg NUM_TYPES_def)
qed

lemma first_window_changes:
  assumes "0 < fpf"
  shows "{f. int f < 6 * fpf \<and> type_change_at fpf st f} = {nat (5 * fpf)}"
proof -
  have "int f < 6 * fpf \<and> int f mod fpf = 0 \<and> (int f div fpf) mod 6 = 5 \<longleftrightarrow> f = nat (5 * fpf)" for f
  proof
    assume h: "int f < 6 * fpf \<and> int f mod fpf = 0 \<and> (int f div fpf) mod 6 = 5"
    define q where "q = int f div fpf"
    have f: "int f = fpf * q" using h by (auto simp: q_def)
    have "0 \<le> q" using assms by (simp add: q_def pos_imp_zdiv_nonneg_iff)
    moreover have "q < 6"
    proof (rule ccontr)
      assume "\<not> q < 6"
      then have "fpf * 6 \<le> fpf * q" using assms by simp
      with f h show False by simp
    qed
    moreover have "q mod 6 = 5" using h by (simp add: q_def)
    ultimately have "q = 5" by presburger
    with f show "f = nat (5 * fpf)" by simp
  next
    assume "f = nat (5 * fpf)"
    with assms show "int f < 6 * fpf \<and> int f mod fpf = 0 \<and> (int f div fpf) mod 6 = 5"
      by simp
  qed
  then show ?thesis using type_change_iff[OF assms] by auto
qed

text \<open>
  C4. The attractor type changes only in a frame that starts a fragment, two changes
  are at least six fragments apart, and a change stores the old current type as the
  previous type, advances the current type by one modulo 5 and resets the blend to 0.
  Over the first \<open>6 \<times> frames_per_fragment\<close> frames from the initial state there is
  exactly one type change.
\<close>

theorem type_cycling_schedule:
  assumes "0 < fpf" and "0 \<le> start_type"
  shows "(\<forall>f. type_change_at fpf start_type f \<longrightarrow>
            c_rem (int f) fpf = 0 \<and>
            (let s = sched_run fpf start_type f; s' = type_cycle fpf (int f) s in
               previous_type s' = current_type s \<and>
               current_type s' = (current_type s + 1) mod 5 \<and>
               transition_blend s' = Fin 0)) \<and>
         (\<forall>f g. type_change_at fpf start_type f \<and> type_change_at fpf start_type g \<and> f < g
            \<longrightarrow> 6 * fpf \<le> int g - int f) \<and>
         card {f. int f < 6 * fpf \<and> type_change_at fpf start_type f} = 1"
proof (intro conjI allI impI)
  fix f
  assume c: "type_change_at fpf start_type f"
  then have b: "int f mod fpf = 0" "(int f div fpf) mod 6 = 5"
    using type_change_iff[OF assms(1)] by auto
  show "c_rem (int f) fpf = 0" using b assms by (simp add: c_rem_nonneg)
  have t: "algo_timer (sched_run fpf start_type f) = 5"
    using b boundaries_Suc[OF assms(1), of f] assms(1)
    by (simp add: timer_run boundaries_def)
  show "let s = sched_run fpf start_type f; s' = type_cycle fpf (int f) s in
               previous_type s' = current_type s \<and>
               current_type s' = (current_type s + 1) mod 5 \<and>
               transition_blend s' = Fin 0"
    using b t assms current_type_nonneg[OF assms, of f]
    by (simp add: Let_def type_cycle_def c_rem_nonneg NUM_TYPES_def)
next
  fix f g
  assume h: "type_change_at fpf start_type f \<and> type_change_at fpf start_type g \<and> f < g"
  define p where "p = int f div fpf"
  define q where "q = int g div fpf"
  have f: "int f = fpf * p" "p mod 6 = 5" and g: "int g = fpf * q" "q mod 6 = 5"
    using h type_change_iff[OF assms(1)] by (auto simp: p_def q_def)
  have "p < q"
  proof (rule ccontr)
    assume "\<not> p < q"
    then have "fpf * q \<le> fpf * p" using assms by simp
    with f g h show False by simp
  qed
  with f g have "p + 6 \<le> q" by presburger
  then have "fpf * (p + 6) \<le> fpf * q" using assms by simp
  then show "6 * fpf \<le> int g - int f" using f g by (simp add: algebra_simps)
next
  show "card {f. int f < 6 * fpf \<and> type_change_at fpf start_type f} = 1"
    by (simp add: first_window_changes[OF assms(1)])
qed

theorem type_cycling_schedule_witness:
  "0 < (300::int) \<and> (0::int) \<le> 0 \<and>
   type_change_at 300 0 1500 \<and> type_change_at 300 0 3300 \<and> (1500::nat) < 3300 \<and>
   c_rem (int 1500) 300 = 0 \<and>
   previous_type (type_cycle 300 (int 1500) (sched_run 300 0 1500))
     = current_type (sched_run 300 0 1500) \<and>
   6 * 300 \<le> int 3300 - int 1500 \<and>
   card {f. int f < 6 * 300 \<and> type_change_at 300 0 f} = 1"
proof -
  have a: "type_change_at 300 0 1500" by (simp add: type_change_iff)
  have b: "type_change_at 300 0 3300" by (simp add: type_change_iff)
  have t: "(\<forall>f. type_change_at 300 0 f \<longrightarrow>
            c_rem (int f) 300 = 0 \<and>
            (let s = sched_run 300 0 f; s' = type_cycle 300 (int f) s in
               previous_type s' = current_type s \<and>
               current_type s' = (current_type s + 1) mod 5 \<and>
               transition_blend s' = Fin 0)) \<and>
         (\<forall>f g. type_change_at 300 0 f \<and> type_change_at 300 0 g \<and> f < g
            \<longrightarrow> 6 * 300 \<le> int g - int f) \<and>
         card {f. int f < 6 * 300 \<and> type_change_at 300 0 f} = 1"
    by (rule type_cycling_schedule) simp_all
  from t a have 1: "c_rem (int 1500) 300 = 0 \<and>
      previous_type (type_cycle 300 (int 1500) (sched_run 300 0 1500))
        = current_type (sched_run 300 0 1500)"
    unfolding Let_def by blast
  from t have q: "\<forall>f g. type_change_at 300 0 f \<and> type_change_at 300 0 g \<and> f < g
            \<longrightarrow> 6 * 300 \<le> int g - int f"
    by (elim conjE)
  from q[rule_format, of 1500 3300] a b have 2: "6 * 300 \<le> int 3300 - int 1500"
    by simp
  from t have 3: "card {f. int f < 6 * 300 \<and> type_change_at 300 0 f} = 1" by (elim conjE)
  show ?thesis using a b 1 2 3 by simp
qed


section \<open>Rounding and the cross-fade clock: proofs\<close>

text \<open>
  When \<open>x\<close> lies in the binade whose spacing is \<open>2\<^sup>e\<close>, the search of \<open>grid_exp\<close>
  stops at \<open>e\<close>; the instances for the binades between \<open>2\<^sup>-\<^sup>7\<close> and \<open>2\<close> are the ones
  the blend passes through.
\<close>

lemma grid_exp_eq:
  "e0 \<le> e \<Longrightarrow> e < 104 \<Longrightarrow> (e = e0 \<or> 2 powi (e + 23) \<le> \<bar>x\<bar>) \<Longrightarrow> \<bar>x\<bar> < 2 powi (e + 24)
     \<Longrightarrow> grid_exp e0 x = e"
proof (induction e0 x rule: grid_exp.induct)
  case (1 e0 x)
  show ?case
  proof (cases "e0 = e")
    case True
    with 1 show ?thesis by (subst grid_exp.simps) simp
  next
    case False
    with 1 have lt: "e0 < e" and big: "2 powi (e + 23) \<le> \<bar>x\<bar>" by auto
    have "(2::real) powi (e0 + 24) \<le> 2 powi (e + 23)"
      using lt by (intro power_int_increasing) auto
    with big have c: "\<not> (104 \<le> e0 \<or> \<bar>x\<bar> < 2 powi (e0 + 24))"
      using lt 1 by auto
    then have "grid_exp e0 x = grid_exp (e0 + 1) x"
      by (subst grid_exp.simps) simp
    also have "\<dots> = e"
      using 1 lt c big by (intro "1.IH") auto
    finally show ?thesis .
  qed
qed

lemma binary32_on_grid:
  assumes "- 149 \<le> e" "e < 104" "e = - 149 \<or> 2 powi (e + 23) \<le> \<bar>x\<bar>" "\<bar>x\<bar> < 2 powi (e + 24)"
  shows "binary32 x = of_int (round_even (x / 2 powi e)) * 2 powi e"
  using grid_exp_eq[OF assms] by (simp add: binary32_def Let_def)

lemma b23: "1 \<le> \<bar>x\<bar> \<Longrightarrow> \<bar>x\<bar> < 2 \<Longrightarrow> binary32 x = of_int (round_even (x * 8388608)) / 8388608"
  using binary32_on_grid[of "-23" x] by (simp add: power_int_minus inverse_eq_divide)

lemma b24: "1/2 \<le> \<bar>x\<bar> \<Longrightarrow> \<bar>x\<bar> < 1 \<Longrightarrow> binary32 x = of_int (round_even (x * 16777216)) / 16777216"
  using binary32_on_grid[of "-24" x] by (simp add: power_int_minus inverse_eq_divide)

lemma b25: "1/4 \<le> \<bar>x\<bar> \<Longrightarrow> \<bar>x\<bar> < 1/2 \<Longrightarrow> binary32 x = of_int (round_even (x * 33554432)) / 33554432"
  using binary32_on_grid[of "-25" x] by (simp add: power_int_minus inverse_eq_divide)

lemma b26: "1/8 \<le> \<bar>x\<bar> \<Longrightarrow> \<bar>x\<bar> < 1/4 \<Longrightarrow> binary32 x = of_int (round_even (x * 67108864)) / 67108864"
  using binary32_on_grid[of "-26" x] by (simp add: power_int_minus inverse_eq_divide)

lemma b27: "1/16 \<le> \<bar>x\<bar> \<Longrightarrow> \<bar>x\<bar> < 1/8 \<Longrightarrow> binary32 x = of_int (round_even (x * 134217728)) / 134217728"
  using binary32_on_grid[of "-27" x] by (simp add: power_int_minus inverse_eq_divide)

lemma b28: "1/32 \<le> \<bar>x\<bar> \<Longrightarrow> \<bar>x\<bar> < 1/16 \<Longrightarrow> binary32 x = of_int (round_even (x * 268435456)) / 268435456"
  using binary32_on_grid[of "-28" x] by (simp add: power_int_minus inverse_eq_divide)

lemma b29: "1/64 \<le> \<bar>x\<bar> \<Longrightarrow> \<bar>x\<bar> < 1/32 \<Longrightarrow> binary32 x = of_int (round_even (x * 536870912)) / 536870912"
  using binary32_on_grid[of "-29" x] by (simp add: power_int_minus inverse_eq_divide)

lemma b30: "1/128 \<le> \<bar>x\<bar> \<Longrightarrow> \<bar>x\<bar> < 1/64 \<Longrightarrow> binary32 x = of_int (round_even (x * 1073741824)) / 1073741824"
  using binary32_on_grid[of "-30" x] by (simp add: power_int_minus inverse_eq_divide)


lemmas bgrid = b23 b24 b25 b26 b27 b28 b29 b30

lemma inc: "binary32 (1/120) = 8947849 / 1073741824"
  by (simp add: bgrid round_even_def Let_def)

lemma to_float_inc: "to_float (Fin 1 / float_of_int TRANSITION_FRAMES) = Fin (8947849 / 1073741824)"
  by (simp add: divide_cfloat_def float_of_int_def TRANSITION_FRAMES_def inc FLT_MAX_def)

lemma step1: "blend_progress (Fin 0) = Fin (8947849 / 1073741824)"
  by (simp add: blend_progress_def to_float_inc less_cfloat_def plus_cfloat_def Let_def bgrid round_even_def FLT_MAX_def)

lemma blend_120: "(blend_progress ^^ 120) (Fin 0) = Fin (8388603 / 8388608)"
  by (simp add: eval_nat_numeral blend_progress_def to_float_inc less_cfloat_def plus_cfloat_def Let_def bgrid round_even_def FLT_MAX_def)

lemma blend_121: "(blend_progress ^^ 121) (Fin 0) = Fin 1"
  by (simp add: eval_nat_numeral blend_progress_def to_float_inc less_cfloat_def plus_cfloat_def Let_def bgrid round_even_def FLT_MAX_def)


lemma round_even_bounds: "y - 1/2 \<le> of_int (round_even y)" "of_int (round_even y) \<le> y + 1/2"
proof -
  define n where "n = \<lfloor>y\<rfloor>"
  have f: "of_int n \<le> y" "y < of_int n + 1" unfolding n_def by linarith+
  have r: "round_even y = (if y - of_int n < 1/2 then n else if 1/2 < y - of_int n then n + 1
                           else if even n then n else n + 1)"
    by (simp add: round_even_def n_def Let_def)
  show "y - 1/2 \<le> of_int (round_even y)" unfolding r using f by (simp split: if_splits)
  show "of_int (round_even y) \<le> y + 1/2" unfolding r using f by (simp split: if_splits)
qed

lemma grid_round_near:
  assumes "binary32 x = of_int (round_even (x * c)) / c" "8388608 \<le> c"
  shows "\<bar>binary32 x - x\<bar> \<le> 1 / 16777216"
proof -
  have c: "0 < c" using assms(2) by linarith
  have "\<bar>of_int (round_even (x * c)) - x * c\<bar> \<le> 1/2"
    using round_even_bounds[of "x * c"] by linarith
  moreover have "binary32 x - x = (of_int (round_even (x * c)) - x * c) / c"
    using c assms(1) by (simp add: field_simps)
  ultimately have "\<bar>binary32 x - x\<bar> \<le> (1/2) / c"
    using c divide_right_mono[of "\<bar>of_int (round_even (x * c)) - x * c\<bar>" "1/2" c]
    by (simp only: abs_divide abs_of_pos[OF c])
  also have "\<dots> \<le> 1 / 16777216"
    using c assms(2) by (simp add: field_simps)
  finally show ?thesis .
qed

lemma binary32_near:
  assumes "1/128 \<le> x" "x < 2"
  shows "\<bar>binary32 x - x\<bar> \<le> 1 / 16777216"
proof -
  consider "1/128 \<le> x" "x < 1/64" | "1/64 \<le> x" "x < 1/32" | "1/32 \<le> x" "x < 1/16" | "1/16 \<le> x" "x < 1/8" | "1/8 \<le> x" "x < 1/4" | "1/4 \<le> x" "x < 1/2" | "1/2 \<le> x" "x < 1" | "1 \<le> x" "x < 2"
    using assms by linarith
  then show ?thesis
  proof cases
  
  case 1
  then have "binary32 x = of_int (round_even (x * 1073741824)) / 1073741824"
    by (intro b30) simp_all
  then show ?thesis
    by (rule grid_round_near) simp
  next
  case 2
  then have "binary32 x = of_int (round_even (x * 536870912)) / 536870912"
    by (intro b29) simp_all
  then show ?thesis
    by (rule grid_round_near) simp
  next
  case 3
  then have "binary32 x = of_int (round_even (x * 268435456)) / 268435456"
    by (intro b28) simp_all
  then show ?thesis
    by (rule grid_round_near) simp
  next
  case 4
  then have "binary32 x = of_int (round_even (x * 134217728)) / 134217728"
    by (intro b27) simp_all
  then show ?thesis
    by (rule grid_round_near) simp
  next
  case 5
  then have "binary32 x = of_int (round_even (x * 67108864)) / 67108864"
    by (intro b26) simp_all
  then show ?thesis
    by (rule grid_round_near) simp
  next
  case 6
  then have "binary32 x = of_int (round_even (x * 33554432)) / 33554432"
    by (intro b25) simp_all
  then show ?thesis
    by (rule grid_round_near) simp
  next
  case 7
  then have "binary32 x = of_int (round_even (x * 16777216)) / 16777216"
    by (intro b24) simp_all
  then show ?thesis
    by (rule grid_round_near) simp
  next
  case 8
  then have "binary32 x = of_int (round_even (x * 8388608)) / 8388608"
    by (intro b23) simp_all
  then show ?thesis
    by (rule grid_round_near) simp
  qed
qed

lemma blend_progress_real:
  assumes "0 \<le> b" "b < 1"
  shows "blend_progress (Fin b) = Fin (min 1 (binary32 (b + 8947849 / 1073741824)))"
    and "b \<le> binary32 (b + 8947849 / 1073741824)"
proof -
  let ?x = "b + 8947849 / 1073741824"
  have n: "\<bar>binary32 ?x - ?x\<bar> \<le> 1 / 16777216"
    using assms by (intro binary32_near) simp_all
  then show "b \<le> binary32 ?x" by linarith
  have "binary32 ?x < 3" using n assms by linarith
  moreover have "- 3 < binary32 ?x" using n assms by linarith
  ultimately show "blend_progress (Fin b) = Fin (min 1 (binary32 ?x))"
    using assms
    by (simp add: blend_progress_def to_float_inc less_cfloat_def plus_cfloat_def Let_def
          FLT_MAX_def min_def)
qed

lemma blend_progress_one: "1 \<le> b \<Longrightarrow> blend_progress (Fin b) = Fin b"
  by (simp add: blend_progress_def less_cfloat_def)


lemma cfloat_le_trans: "a \<le> b \<Longrightarrow> b \<le> c \<Longrightarrow> a \<le> (c::cfloat)"
  by (cases a; cases b; cases c) (auto simp: less_eq_cfloat_def)

lemma blend_progress_range:
  assumes "0 \<le> b" "b \<le> 1"
  shows "\<exists>b'. blend_progress (Fin b) = Fin b' \<and> b \<le> b' \<and> b' \<le> 1"
proof (cases "b < 1")
  case True
  with assms blend_progress_real[of b] show ?thesis by (auto simp: min_def)
next
  case False
  with assms show ?thesis by (simp add: blend_progress_one)
qed

lemma blend_run_range: "\<exists>v. (blend_progress ^^ k) (Fin 0) = Fin v \<and> 0 \<le> v \<and> v \<le> 1"
proof (induction k)
  case 0
  show ?case by simp
next
  case (Suc k)
  then obtain v where v: "(blend_progress ^^ k) (Fin 0) = Fin v" "0 \<le> v" "v \<le> 1" by blast
  from blend_progress_range[OF v(2,3)] obtain w where "blend_progress (Fin v) = Fin w" "v \<le> w" "w \<le> 1"
    by blast
  with v show ?case by auto
qed

lemma blend_run_step: "(blend_progress ^^ k) (Fin 0) \<le> (blend_progress ^^ Suc k) (Fin 0)"
proof -
  obtain v where v: "(blend_progress ^^ k) (Fin 0) = Fin v" "0 \<le> v" "v \<le> 1"
    using blend_run_range by blast
  from blend_progress_range[OF v(2,3)] obtain w where "blend_progress (Fin v) = Fin w" "v \<le> w"
    by blast
  with v show ?thesis by (simp add: less_eq_cfloat_def)
qed

lemma blend_run_mono: "(blend_progress ^^ k) (Fin 0) \<le> (blend_progress ^^ (k + d)) (Fin 0)"
proof (induction d)
  case 0
  obtain v where "(blend_progress ^^ k) (Fin 0) = Fin v" using blend_run_range by blast
  then show ?case by (simp add: less_eq_cfloat_def)
next
  case (Suc d)
  show ?case
    using cfloat_le_trans[OF Suc blend_run_step[of "k + d"]] by simp
qed

lemma blend_run_one_iff: "(blend_progress ^^ k) (Fin 0) = Fin 1 \<longleftrightarrow> 121 \<le> k"
proof
  assume h: "(blend_progress ^^ k) (Fin 0) = Fin 1"
  show "121 \<le> k"
  proof (rule ccontr)
    assume "\<not> 121 \<le> k"
    then have "k + (120 - k) = 120" by simp
    with blend_run_mono[of k "120 - k"] h blend_120 show False
      by (simp add: less_eq_cfloat_def)
  qed
next
  assume "121 \<le> k"
  then obtain d where k: "k = d + 121" by (metis le_add_diff_inverse2)
  have "(blend_progress ^^ d) (Fin 1) = Fin 1"
    by (induction d) (simp_all add: blend_progress_one)
  then show "(blend_progress ^^ k) (Fin 0) = Fin 1"
    unfolding k funpow_add by (simp add: blend_121)
qed

text \<open>
  C5, as amended. With each operation rounded to binary32, one application of the
  per-frame update never lowers a blend in \<open>[0, 1]\<close> and never takes it above 1.0;
  started from 0 the blend is non-decreasing from frame to frame, stays at most 1.0,
  and is exactly 1.0 after 121 applications and after no fewer.
\<close>

theorem blend_clock:
  "(\<forall>b. 0 \<le> b \<and> b \<le> 1 \<longrightarrow>
        Fin b \<le> blend_progress (Fin b) \<and> blend_progress (Fin b) \<le> Fin 1) \<and>
   (\<forall>k. (blend_progress ^^ k) (Fin 0) \<le> (blend_progress ^^ Suc k) (Fin 0) \<and>
        (blend_progress ^^ k) (Fin 0) \<le> Fin 1 \<and>
        ((blend_progress ^^ k) (Fin 0) = Fin 1 \<longleftrightarrow> 121 \<le> k))"
proof (intro conjI allI impI)
  fix b :: real
  assume "0 \<le> b \<and> b \<le> 1"
  then obtain b' where "blend_progress (Fin b) = Fin b'" "b \<le> b'" "b' \<le> 1"
    using blend_progress_range[of b] by blast
  then show "Fin b \<le> blend_progress (Fin b)" "blend_progress (Fin b) \<le> Fin 1"
    by (simp_all add: less_eq_cfloat_def)
next
  fix k
  show "(blend_progress ^^ k) (Fin 0) \<le> (blend_progress ^^ Suc k) (Fin 0)"
    by (rule blend_run_step)
  obtain v where "(blend_progress ^^ k) (Fin 0) = Fin v" "v \<le> 1"
    using blend_run_range by blast
  then show "(blend_progress ^^ k) (Fin 0) \<le> Fin 1" by (simp add: less_eq_cfloat_def)
  show "(blend_progress ^^ k) (Fin 0) = Fin 1 \<longleftrightarrow> 121 \<le> k"
    by (rule blend_run_one_iff)
qed

theorem blend_clock_witness:
  "(0::real) \<le> 1/2 \<and> (1/2::real) \<le> 1 \<and>
   Fin (1/2) \<le> blend_progress (Fin (1/2)) \<and> blend_progress (Fin (1/2)) \<le> Fin 1 \<and>
   (blend_progress ^^ 121) (Fin 0) = Fin 1"
proof -
  have "(0::real) \<le> 1/2 \<and> (1/2::real) \<le> 1" by simp
  moreover from blend_clock have "(0::real) \<le> 1/2 \<and> (1/2::real) \<le> 1 \<longrightarrow>
        Fin (1/2) \<le> blend_progress (Fin (1/2)) \<and> blend_progress (Fin (1/2)) \<le> Fin 1"
    by (elim conjE allE[of _ "1/2"])
  moreover from blend_clock have "(blend_progress ^^ 121) (Fin 0) = Fin 1 \<longleftrightarrow> (121::nat) \<le> 121"
    by (elim conjE allE[of _ "121::nat"])
  ultimately show ?thesis by simp
qed

text \<open>
  The claim as stated fails: after 120 applications from 0 the blend is
  \<open>8388603 / 8388608\<close>, one rounding short of 1.0.
\<close>

theorem blend_not_one_after_120: "(blend_progress ^^ 120) (Fin 0) \<noteq> Fin 1"
  by (simp add: blend_120)

section \<open>Rounding to binary32: order and accuracy\<close>

text \<open>
  General facts about the rounding: the exponent found by \<open>grid_exp\<close> is the one of the
  binade of its argument, rounding to the nearest integer is monotone and odd, and so
  \<open>binary32\<close> is monotone and odd, moves its argument by at most half a spacing, takes
  everything up to \<open>2\<^sup>-\<^sup>1\<^sup>5\<^sup>0\<close> to zero and leaves the binary32 numbers themselves unchanged.
\<close>

lemma grid_exp_spec:
  "e0 \<le> 104 \<Longrightarrow> e0 \<le> grid_exp e0 x \<and> grid_exp e0 x \<le> 104 \<and>
     (grid_exp e0 x < 104 \<longrightarrow> \<bar>x\<bar> < 2 powi (grid_exp e0 x + 24)) \<and>
     (e0 < grid_exp e0 x \<longrightarrow> 2 powi (grid_exp e0 x + 23) \<le> \<bar>x\<bar>)"
proof (induction e0 x rule: grid_exp.induct)
  case (1 e x)
  show ?case
  proof (cases "104 \<le> e \<or> \<bar>x\<bar> < 2 powi (e + 24)")
    case True
    then have "grid_exp e x = e" by (subst grid_exp.simps) simp
    with True 1(2) show ?thesis by auto
  next
    case False
    then have g: "grid_exp e x = grid_exp (e + 1) x" by (subst grid_exp.simps) simp
    from False have le: "e + 1 \<le> 104" by simp
    note IH = 1(1)[OF False le]
    have big: "2 powi (e + 24) \<le> \<bar>x\<bar>" using False by simp
    have "2 powi (grid_exp (e + 1) x + 23) \<le> \<bar>x\<bar>"
    proof (cases "grid_exp (e + 1) x = e + 1")
      case True
      then show ?thesis using big by (simp add: add.commute add.left_commute)
    next
      case False
      with IH show ?thesis by simp
    qed
    with IH show ?thesis unfolding g by simp
  qed
qed

lemma grid_exp_range: "- 149 \<le> grid_exp (- 149) x" "grid_exp (- 149) x \<le> 104"
  using grid_exp_spec[of "- 149" x] by simp_all

lemma grid_exp_upper: "grid_exp (- 149) x < 104 \<Longrightarrow> \<bar>x\<bar> < 2 powi (grid_exp (- 149) x + 24)"
  using grid_exp_spec[of "- 149" x] by simp

lemma grid_exp_lower: "- 149 < grid_exp (- 149) x \<Longrightarrow> 2 powi (grid_exp (- 149) x + 23) \<le> \<bar>x\<bar>"
  using grid_exp_spec[of "- 149" x] by simp

lemma grid_exp_mono:
  assumes "\<bar>x\<bar> \<le> \<bar>y\<bar>"
  shows "grid_exp (- 149) x \<le> grid_exp (- 149) y"
proof (rule ccontr)
  assume "\<not> ?thesis"
  then have lt: "grid_exp (- 149) y < grid_exp (- 149) x" by simp
  with grid_exp_range[of y] have "- 149 < grid_exp (- 149) x" by linarith
  then have a: "2 powi (grid_exp (- 149) x + 23) \<le> \<bar>x\<bar>" by (rule grid_exp_lower)
  from lt grid_exp_range[of x] have "grid_exp (- 149) y < 104" by linarith
  then have b: "\<bar>y\<bar> < 2 powi (grid_exp (- 149) y + 24)" by (rule grid_exp_upper)
  have "(2::real) powi (grid_exp (- 149) y + 24) \<le> 2 powi (grid_exp (- 149) x + 23)"
    using lt by (intro power_int_increasing) auto
  with a b assms show False by linarith
qed

lemma grid_exp_abs_eq: "\<bar>x\<bar> = \<bar>y\<bar> \<Longrightarrow> grid_exp (- 149) x = grid_exp (- 149) y"
  using grid_exp_mono[of x y] grid_exp_mono[of y x] by simp

lemma round_even_cases: "round_even y = \<lfloor>y\<rfloor> \<or> round_even y = \<lfloor>y\<rfloor> + 1"
  by (simp add: round_even_def Let_def)

lemma round_even_mono:
  assumes "y1 \<le> y2"
  shows "round_even y1 \<le> round_even y2"
proof (cases "\<lfloor>y1\<rfloor> = \<lfloor>y2\<rfloor>")
  case True
  then show ?thesis using assms by (auto simp: round_even_def Let_def)
next
  case False
  have "\<lfloor>y1\<rfloor> \<le> \<lfloor>y2\<rfloor>" using assms by (rule floor_mono)
  with False have "\<lfloor>y1\<rfloor> + 1 \<le> \<lfloor>y2\<rfloor>" by simp
  moreover have "round_even y1 \<le> \<lfloor>y1\<rfloor> + 1" using round_even_cases[of y1] by auto
  moreover have "\<lfloor>y2\<rfloor> \<le> round_even y2" using round_even_cases[of y2] by auto
  ultimately show ?thesis by linarith
qed

lemma round_even_of_int: "round_even (of_int k) = k"
  by (simp add: round_even_def Let_def)

lemma round_even_minus: "round_even (- y) = - round_even y"
proof (cases "y = of_int \<lfloor>y\<rfloor>")
  case True
  then obtain k where "y = of_int k" by blast
  then have "round_even (- y) = round_even (of_int (- k))" by simp
  also have "\<dots> = - k" by (rule round_even_of_int)
  finally show ?thesis using \<open>y = of_int k\<close> by (simp add: round_even_of_int)
next
  case False
  define n where "n = \<lfloor>y\<rfloor>"
  have lt: "of_int n < y" "y < of_int n + 1"
    using False unfolding n_def by linarith+
  have f: "\<lfloor>- y\<rfloor> = - n - 1"
    using lt by (intro floor_unique) simp_all
  have e: "even (- n - 1) \<longleftrightarrow> odd n" by simp
  show ?thesis
    unfolding round_even_def Let_def f n_def[symmetric] e
    using lt by (auto split: if_splits)
qed

lemma round_even_half: "\<bar>y\<bar> \<le> 1/2 \<Longrightarrow> round_even y = 0"
proof -
  assume a: "\<bar>y\<bar> \<le> 1/2"
  have "round_even (- 1/2) = 0" "round_even (1/2) = 0"
    by (simp_all add: round_even_def Let_def)
  moreover have "round_even (- 1/2) \<le> round_even y" "round_even y \<le> round_even (1/2)"
    using a by (intro round_even_mono; linarith)+
  ultimately show ?thesis by linarith
qed

lemma binary32_minus: "binary32 (- x) = - binary32 x"
proof -
  have "grid_exp (- 149) (- x) = grid_exp (- 149) x" by (rule grid_exp_abs_eq) simp
  then show ?thesis
    by (simp add: binary32_def Let_def round_even_minus)
qed

lemma binary32_zero: "binary32 0 = 0"
  by (simp add: binary32_def Let_def round_even_def)

lemma binary32_nonneg: "0 \<le> x \<Longrightarrow> 0 \<le> binary32 x"
proof -
  assume "0 \<le> x"
  then have "0 \<le> x / 2 powi grid_exp (- 149) x" by simp
  then have "round_even 0 \<le> round_even (x / 2 powi grid_exp (- 149) x)"
    by (rule round_even_mono)
  then have "0 \<le> round_even (x / 2 powi grid_exp (- 149) x)"
    using round_even_of_int[of 0] by simp
  then show ?thesis by (simp add: binary32_def Let_def)
qed

lemma binary32_mono_pos:
  assumes "0 \<le> x" "x \<le> y"
  shows "binary32 x \<le> binary32 y"
proof -
  define ex where "ex = grid_exp (- 149) x"
  define ey where "ey = grid_exp (- 149) y"
  have le: "ex \<le> ey" unfolding ex_def ey_def using assms by (intro grid_exp_mono) simp
  have bx: "binary32 x = of_int (round_even (x / 2 powi ex)) * 2 powi ex"
    by (simp add: binary32_def ex_def Let_def)
  have by': "binary32 y = of_int (round_even (y / 2 powi ey)) * 2 powi ey"
    by (simp add: binary32_def ey_def Let_def)
  show ?thesis
  proof (cases "ex = ey")
    case True
    have "x / 2 powi ey \<le> y / 2 powi ey" using assms by (intro divide_right_mono) simp_all
    then have "round_even (x / 2 powi ey) \<le> round_even (y / 2 powi ey)" by (rule round_even_mono)
    then have "real_of_int (round_even (x / 2 powi ey)) * 2 powi ey
                 \<le> real_of_int (round_even (y / 2 powi ey)) * 2 powi ey"
      by (intro mult_right_mono) simp_all
    then show ?thesis unfolding bx by' True .
  next
    case False
    with le have lt: "ex < ey" by simp
    then have "ex < 104" using grid_exp_range(2)[of y] unfolding ey_def by linarith
    then have "\<bar>x\<bar> < 2 powi (ex + 24)" unfolding ex_def by (rule grid_exp_upper)
    then have "x < 2 powi ex * 2 powi 24" by (simp add: power_int_add)
    then have "x / 2 powi ex \<le> 2 powi 24" by (simp add: field_simps)
    then have "round_even (x / 2 powi ex) \<le> round_even (of_int (2 ^ 24))"
      by (intro round_even_mono) simp
    then have "round_even (x / 2 powi ex) \<le> 2 ^ 24" by (simp only: round_even_of_int)
    then have "real_of_int (round_even (x / 2 powi ex)) \<le> 2 powi 24"
      by (metis of_int_le_iff of_int_numeral of_int_power power_int_numeral)
    then have "binary32 x \<le> 2 powi 24 * 2 powi ex"
      unfolding bx by (intro mult_right_mono) simp_all
    also have "\<dots> = 2 powi (ex + 24)" by (simp add: power_int_add)
    also have "\<dots> \<le> 2 powi (ey + 23)" using lt by (intro power_int_increasing) auto
    finally have a: "binary32 x \<le> 2 powi (ey + 23)" .
    from lt grid_exp_range(1)[of x] have "- 149 < ey" unfolding ex_def by linarith
    then have "2 powi (ey + 23) \<le> \<bar>y\<bar>" unfolding ey_def by (rule grid_exp_lower)
    then have "2 powi ey * 2 powi 23 \<le> y" using assms by (simp add: power_int_add)
    then have "2 powi 23 \<le> y / 2 powi ey" by (simp add: field_simps)
    then have "round_even (of_int (2 ^ 23)) \<le> round_even (y / 2 powi ey)"
      by (intro round_even_mono) simp
    then have "2 ^ 23 \<le> round_even (y / 2 powi ey)" by (simp only: round_even_of_int)
    then have "2 powi 23 \<le> real_of_int (round_even (y / 2 powi ey))"
      by (metis of_int_le_iff of_int_numeral of_int_power power_int_numeral)
    then have "2 powi 23 * 2 powi ey \<le> binary32 y"
      unfolding by' by (intro mult_right_mono) simp_all
    then have "2 powi (ey + 23) \<le> binary32 y" by (simp add: power_int_add mult.commute)
    with a show ?thesis by linarith
  qed
qed

lemma binary32_mono:
  assumes "x \<le> y"
  shows "binary32 x \<le> binary32 y"
proof -
  consider "0 \<le> x" | "x < 0" "0 \<le> y" | "y < 0" by linarith
  then show ?thesis
  proof cases
    case 1
    then show ?thesis using assms by (rule binary32_mono_pos)
  next
    case 2
    have "0 \<le> binary32 (- x)" using 2 by (intro binary32_nonneg) simp
    then have "binary32 x \<le> 0" by (simp add: binary32_minus)
    moreover have "0 \<le> binary32 y" using 2 by (intro binary32_nonneg)
    ultimately show ?thesis by linarith
  next
    case 3
    have "binary32 (- y) \<le> binary32 (- x)" using 3 assms by (intro binary32_mono_pos) simp_all
    then show ?thesis by (simp add: binary32_minus)
  qed
qed

lemma binary32_err:
  "\<bar>binary32 x - x\<bar> \<le> max (2 powi (- 150)) (\<bar>x\<bar> / 2 ^ 24)"
proof -
  define e where "e = grid_exp (- 149) x"
  have p: "(0::real) < 2 powi e" by simp
  have b: "binary32 x = of_int (round_even (x / 2 powi e)) * 2 powi e"
    by (simp add: binary32_def e_def Let_def)
  have "\<bar>of_int (round_even (x / 2 powi e)) - x / 2 powi e\<bar> \<le> 1/2"
    using round_even_bounds[of "x / 2 powi e"] by linarith
  then have "\<bar>of_int (round_even (x / 2 powi e)) - x / 2 powi e\<bar> * 2 powi e \<le> 1/2 * 2 powi e"
    by (intro mult_right_mono) simp_all
  moreover have "binary32 x - x = (of_int (round_even (x / 2 powi e)) - x / 2 powi e) * 2 powi e"
    unfolding b by (simp add: field_simps)
  ultimately have h: "\<bar>binary32 x - x\<bar> \<le> 2 powi e / 2"
    by (simp add: abs_mult)
  show ?thesis
  proof (cases "e = - 149")
    case True
    have eq: "(2::real) powi (- 149) / 2 = 2 powi (- 150)"
      by (simp add: power_int_minus)
    from h have "\<bar>binary32 x - x\<bar> \<le> 2 powi (- 149) / 2" unfolding True .
    then have "\<bar>binary32 x - x\<bar> \<le> 2 powi (- 150)" unfolding eq .
    then show ?thesis by (rule max.coboundedI1)
  next
    case False
    with grid_exp_range(1)[of x] have "- 149 < e" unfolding e_def by linarith
    then have "2 powi (e + 23) \<le> \<bar>x\<bar>" unfolding e_def by (rule grid_exp_lower)
    then have "2 powi e * 2 ^ 23 \<le> \<bar>x\<bar>" by (simp add: power_int_add)
    then have "2 powi e / 2 \<le> \<bar>x\<bar> / 2 ^ 24" by (simp add: field_simps)
    with h have "\<bar>binary32 x - x\<bar> \<le> \<bar>x\<bar> / 2 ^ 24" by linarith
    then show ?thesis by (rule max.coboundedI2)
  qed
qed

lemma binary32_small:
  assumes "\<bar>x\<bar> \<le> 2 powi (- 150)"
  shows "binary32 x = 0"
proof -
  have "(2::real) powi (- 150) < 2 powi (- 149 + 24)" by (intro power_int_strict_increasing) auto
  with assms have "\<bar>x\<bar> < 2 powi (- 149 + 24)" by linarith
  then have "grid_exp (- 149) x = - 149" by (intro grid_exp_eq) simp_all
  then have b: "binary32 x = of_int (round_even (x / 2 powi (- 149))) * 2 powi (- 149)"
    by (simp add: binary32_def Let_def)
  have "\<bar>x\<bar> / 2 powi (- 149) \<le> 2 powi (- 150) / 2 powi (- 149)"
    using assms by (intro divide_right_mono) simp_all
  also have "\<dots> = 1/2" by (simp add: power_int_minus)
  finally have "\<bar>x / 2 powi (- 149)\<bar> \<le> 1/2" by (simp add: abs_divide)
  then have "round_even (x / 2 powi (- 149)) = 0" by (rule round_even_half)
  then show ?thesis unfolding b by simp
qed

lemma binary32_representable:
  assumes "- 149 \<le> e" "e \<le> 104" "\<bar>k\<bar> < 2 ^ 24"
  shows "binary32 (of_int k * 2 powi e) = of_int k * 2 powi e"
proof -
  define x :: real where "x = of_int k * 2 powi e"
  define g where "g = grid_exp (- 149) x"
  have ax: "\<bar>x\<bar> < 2 powi (e + 24)"
  proof -
    have "real_of_int \<bar>k\<bar> < 2 ^ 24" using assms(3) by (metis of_int_less_iff of_int_numeral of_int_power)
    then have "real_of_int \<bar>k\<bar> * 2 powi e < 2 ^ 24 * 2 powi e" by (intro mult_strict_right_mono) simp_all
    then show ?thesis unfolding x_def by (simp add: abs_mult power_int_add mult.commute)
  qed
  have ge: "g \<le> e"
  proof (rule ccontr)
    assume "\<not> g \<le> e"
    then have lt: "e < g" by simp
    with assms have "- 149 < g" by linarith
    then have "2 powi (g + 23) \<le> \<bar>x\<bar>" unfolding g_def by (rule grid_exp_lower)
    moreover have "(2::real) powi (e + 24) \<le> 2 powi (g + 23)"
      using lt by (intro power_int_increasing) auto
    ultimately show False using ax by linarith
  qed
  then obtain d :: nat where d: "e = g + int d" by (metis zle_iff_zadd)
  have "x / 2 powi g = of_int k * 2 ^ d"
    unfolding x_def d by (simp add: power_int_add)
  also have "\<dots> = of_int (k * 2 ^ d)" by simp
  finally have "round_even (x / 2 powi g) = k * 2 ^ d" by (simp only: round_even_of_int)
  then have "binary32 x = of_int (k * 2 ^ d) * 2 powi g"
    by (simp add: binary32_def g_def Let_def)
  also have "\<dots> = x" unfolding x_def d by (simp add: power_int_add)
  finally show ?thesis unfolding x_def .
qed

section \<open>Parameter interpolation: proofs\<close>

text \<open>Arithmetic on finite values, and rounding without overflow.\<close>


lemma Fin_plus: "Fin a + Fin b = Fin (a + b)"
  by (simp add: cfloat_ops)

lemma Fin_minus: "Fin a - Fin b = Fin (a - b)"
  by (simp add: cfloat_ops)

lemma Fin_times: "Fin a * Fin b = Fin (a * b)"
  by (simp add: cfloat_ops)

lemma FLT_MAX_representable: "binary32 FLT_MAX = FLT_MAX"
proof -
  have "FLT_MAX = of_int (2 ^ 24 - 1) * 2 powi 104" by (simp add: FLT_MAX_def)
  moreover have "binary32 (of_int (2 ^ 24 - 1) * 2 powi 104) = of_int (2 ^ 24 - 1) * 2 powi 104"
    by (rule binary32_representable) simp_all
  ultimately show ?thesis by simp
qed

lemma to_float_Fin:
  assumes "\<bar>x\<bar> \<le> FLT_MAX"
  shows "to_float (Fin x) = Fin (binary32 x)"
proof -
  have "binary32 x \<le> binary32 FLT_MAX" using assms by (intro binary32_mono) linarith
  moreover have "binary32 (- FLT_MAX) \<le> binary32 x" using assms by (intro binary32_mono) linarith
  ultimately have "binary32 x \<le> FLT_MAX" "- FLT_MAX \<le> binary32 x"
    by (simp_all add: binary32_minus FLT_MAX_representable)
  then show ?thesis by (simp add: Let_def)
qed

lemma pow2_100_representable: "binary32 (2 ^ 100) = 2 ^ 100"
proof -
  have "binary32 (of_int 1 * 2 powi 100) = of_int 1 * 2 powi 100"
    by (rule binary32_representable) simp_all
  then show ?thesis by simp
qed

lemma binary32_abs_le_pow2_100:
  assumes "\<bar>x\<bar> \<le> 2 ^ 100"
  shows "\<bar>binary32 x\<bar> \<le> 2 ^ 100"
proof -
  have "binary32 x \<le> binary32 (2 ^ 100)" using assms by (intro binary32_mono) linarith
  moreover have "binary32 (- (2 ^ 100)) \<le> binary32 x" using assms by (intro binary32_mono) linarith
  ultimately show ?thesis unfolding binary32_minus pow2_100_representable by linarith
qed

lemma lerp_const: "to_float (Fin 0.02) = Fin (5368709 / 268435456)"
proof -
  have "binary32 (0.02) = 5368709 / 268435456"
    using binary32_on_grid[of "- 29" "0.02"]
    by (simp add: power_int_minus round_even_def Let_def)
  then show ?thesis by (simp add: Let_def FLT_MAX_def)
qed

text \<open>
  The rounded increment \<^verbatim>\<open>(target - cur) * lerp\<close> lies between zero and the difference,
  whatever the difference is.
\<close>

lemma increment_bounds:
  assumes "0 \<le> D" "0 \<le> c" "c \<le> 1/4"
  shows "0 \<le> binary32 (binary32 D * c)" "binary32 (binary32 D * c) \<le> D"
proof -
  have d0: "0 \<le> binary32 D" using assms(1) by (rule binary32_nonneg)
  then have z0: "0 \<le> binary32 D * c" using assms(2) by simp
  then show "0 \<le> binary32 (binary32 D * c)" by (rule binary32_nonneg)
  show "binary32 (binary32 D * c) \<le> D"
  proof (cases "binary32 D * c \<le> 2 powi (- 150)")
    case True
    then have "binary32 (binary32 D * c) = 0" using z0 by (intro binary32_small) simp
    then show ?thesis using assms(1) by simp
  next
    case False
    then have zb: "2 powi (- 150) < binary32 D * c" by simp
    have "binary32 D * c / 2 ^ 24 \<le> binary32 D * c" using z0 by (simp add: field_simps)
    with zb have "max (2 powi (- 150)) (\<bar>binary32 D * c\<bar> / 2 ^ 24) \<le> binary32 D * c"
      using z0 by simp
    with binary32_err[of "binary32 D * c"]
    have m: "binary32 (binary32 D * c) \<le> 2 * (binary32 D * c)" by linarith
    have Db: "2 powi (- 150) < D"
    proof (rule ccontr)
      assume "\<not> ?thesis"
      then have "binary32 D = 0" using assms(1) by (intro binary32_small) simp
      with zb show False by simp
    qed
    have "D / 2 ^ 24 \<le> D" using assms(1) by (simp add: field_simps)
    with Db have "max (2 powi (- 150)) (\<bar>D\<bar> / 2 ^ 24) \<le> D" using assms(1) by simp
    with binary32_err[of D] have d: "binary32 D \<le> 2 * D" by linarith
    have "binary32 D * c \<le> (2 * D) * (1/4)"
      using d assms d0 by (intro mult_mono) simp_all
    with m show ?thesis by linarith
  qed
qed

text \<open>
  Hence the rounded step lands between the rounded current value and the rounded
  target, from below and, by symmetry, from above.
\<close>

lemma lerp_up:
  assumes "cur \<le> target" "0 \<le> c" "c \<le> 1/4"
  shows "binary32 cur \<le> binary32 (cur + binary32 (binary32 (target - cur) * c))"
    and "binary32 (cur + binary32 (binary32 (target - cur) * c)) \<le> binary32 target"
proof -
  have D: "0 \<le> target - cur" using assms(1) by simp
  note m = increment_bounds[OF D assms(2,3)]
  show "binary32 cur \<le> binary32 (cur + binary32 (binary32 (target - cur) * c))"
    using m(1) by (intro binary32_mono) simp
  show "binary32 (cur + binary32 (binary32 (target - cur) * c)) \<le> binary32 target"
    using m(2) by (intro binary32_mono) simp
qed

lemma lerp_neg:
  "binary32 (- cur + binary32 (binary32 (- target - (- cur)) * c))
     = - binary32 (cur + binary32 (binary32 (target - cur) * c))"
proof -
  have "- target - (- cur) = - (target - cur)" by simp
  then show ?thesis
    by (simp only: binary32_minus mult_minus_left minus_add_distrib[symmetric])
qed

lemma lerp_down:
  assumes "target \<le> cur" "0 \<le> c" "c \<le> 1/4"
  shows "binary32 target \<le> binary32 (cur + binary32 (binary32 (target - cur) * c))"
    and "binary32 (cur + binary32 (binary32 (target - cur) * c)) \<le> binary32 cur"
proof -
  have le: "- cur \<le> - target" using assms(1) by simp
  from lerp_up(1)[OF le assms(2,3)]
  show "binary32 (cur + binary32 (binary32 (target - cur) * c)) \<le> binary32 cur"
    unfolding lerp_neg by (simp add: binary32_minus)
  from lerp_up(2)[OF le assms(2,3)]
  show "binary32 target \<le> binary32 (cur + binary32 (binary32 (target - cur) * c))"
    unfolding lerp_neg by (simp add: binary32_minus)
qed

text \<open>
  Away from the target the rounded step makes progress: the increment is then larger
  than half the spacing of the binary32 numbers around the sum.
\<close>

lemma lerp_strict_up:
  assumes "cur < target" "1 / 2 ^ 100 \<le> target - cur"
    and "max \<bar>cur\<bar> \<bar>target\<bar> \<le> 2 ^ 18 * (target - cur)"
  shows "cur < binary32 (cur + binary32 (binary32 (target - cur) * (5368709 / 268435456)))"
proof -
  define D where "D = target - cur"
  define d where "d = binary32 D"
  define z where "z = d * (5368709 / 268435456)"
  define m where "m = binary32 z"
  define y where "y = cur + m"
  define M where "M = max \<bar>cur\<bar> \<bar>target\<bar>"
  have D: "1 / 2 ^ 100 \<le> D" "0 < D" "M \<le> 2 ^ 18 * D"
    using assms unfolding D_def M_def by simp_all
  have p150: "(2::real) powi (- 150) = 1 / 2 ^ 150" by (simp add: power_int_minus inverse_eq_divide)
  have "2 powi (- 150) \<le> \<bar>D\<bar> / 2 ^ 24" unfolding p150 using D(1) by simp
  then have "max (2 powi (- 150)) (\<bar>D\<bar> / 2 ^ 24) = \<bar>D\<bar> / 2 ^ 24" by simp
  with binary32_err[of D] have "\<bar>d - D\<bar> \<le> D / 2 ^ 24" using D(2) unfolding d_def by simp
  then have d: "D - D / 2 ^ 24 \<le> d" by linarith
  have z: "D * (199 / 10000) \<le> z"
  proof -
    have "D * (199 / 10000) \<le> (D - D / 2 ^ 24) * (5368709 / 268435456)"
      using D(2) by (simp add: field_simps)
    also have "\<dots> \<le> z" unfolding z_def using d by (intro mult_right_mono) simp_all
    finally show ?thesis .
  qed
  have "0 < D * (199 / 10000)" using D(2) by simp
  with z have z0: "0 < z" by linarith
  have "2 powi (- 150) \<le> \<bar>z\<bar> / 2 ^ 24"
  proof -
    have "1 / 2 ^ 100 * (199 / 10000) \<le> z"
      using z mult_right_mono[OF D(1), of "199 / 10000"] by linarith
    then show ?thesis unfolding p150 using z0 by simp
  qed
  then have "max (2 powi (- 150)) (\<bar>z\<bar> / 2 ^ 24) = \<bar>z\<bar> / 2 ^ 24" by simp
  with binary32_err[of z] have "\<bar>m - z\<bar> \<le> z / 2 ^ 24" using z0 unfolding m_def by simp
  then have "z - z / 2 ^ 24 \<le> m" by linarith
  then have m: "D * (19 / 1000) \<le> m" using z D(2) by (simp add: field_simps)
  have mD: "0 \<le> m" "m \<le> D"
    using increment_bounds[of D "5368709 / 268435456"] D(2)
    unfolding m_def z_def d_def by simp_all
  have "cur \<le> y" "y \<le> target" unfolding y_def using mD unfolding D_def by simp_all
  then have yM: "\<bar>y\<bar> \<le> M" unfolding M_def by linarith
  have e1: "2 powi (- 150) < m"
  proof -
    have "1 / 2 ^ 100 * (19 / 1000) \<le> m"
      using m mult_right_mono[OF D(1), of "19 / 1000"] by linarith
    then show ?thesis unfolding p150 by simp
  qed
  have e2: "\<bar>y\<bar> / 2 ^ 24 < m"
  proof -
    have "\<bar>y\<bar> / 2 ^ 24 \<le> M / 2 ^ 24" using yM by (simp add: divide_right_mono)
    also have "\<dots> \<le> 2 ^ 18 * D / 2 ^ 24" using D(3) by (simp add: divide_right_mono)
    also have "\<dots> < D * (19 / 1000)" using D(2) by (simp add: field_simps)
    finally show ?thesis using m by linarith
  qed
  from e1 e2 have "max (2 powi (- 150)) (\<bar>y\<bar> / 2 ^ 24) < m" by simp
  with binary32_err[of y] have "y - m < binary32 y" by linarith
  then show ?thesis unfolding y_def m_def z_def d_def D_def by simp
qed

lemma lerp_strict_down:
  assumes "target < cur" "1 / 2 ^ 100 \<le> cur - target"
    and "max \<bar>cur\<bar> \<bar>target\<bar> \<le> 2 ^ 18 * (cur - target)"
  shows "binary32 (cur + binary32 (binary32 (target - cur) * (5368709 / 268435456))) < cur"
proof -
  have "- cur < binary32 (- cur + binary32 (binary32 (- target - (- cur)) * (5368709 / 268435456)))"
    using assms by (intro lerp_strict_up) (simp_all add: max.commute)
  then show ?thesis unfolding lerp_neg by simp
qed

text \<open>The step on \<^verbatim>\<open>float\<close> values of moderate magnitude: nothing overflows.\<close>

lemma lerp_f32_Fin:
  assumes "\<bar>cur\<bar> \<le> 2 ^ 100" "\<bar>target\<bar> \<le> 2 ^ 100"
  shows "lerp_f32 (Fin cur) (Fin target) (to_float (Fin 0.02))
           = Fin (binary32 (cur + binary32 (binary32 (target - cur) * (5368709 / 268435456))))"
    and "\<bar>binary32 (cur + binary32 (binary32 (target - cur) * (5368709 / 268435456)))\<bar> \<le> 2 ^ 100"
proof -
  let ?c = "5368709 / 268435456 :: real"
  let ?m = "binary32 (binary32 (target - cur) * ?c)"
  have big: "(2::real) ^ 102 \<le> FLT_MAX" "(2::real) ^ 101 \<le> 2 ^ 102" "(2::real) ^ 100 \<le> 2 ^ 101"
    "(2::real) ^ 100 + 2 ^ 101 \<le> 2 ^ 102"
    by (simp_all add: FLT_MAX_def)
  have D: "\<bar>target - cur\<bar> \<le> 2 ^ 101" using assms by (simp add: abs_le_iff)
  then have 1: "\<bar>target - cur\<bar> \<le> FLT_MAX" using big by linarith
  have mb: "\<bar>?m\<bar> \<le> \<bar>target - cur\<bar>"
  proof (cases "cur \<le> target")
    case True
    then show ?thesis using increment_bounds[of "target - cur" ?c] by simp
  next
    case False
    then have "0 \<le> cur - target" by simp
    from increment_bounds[OF this, of ?c]
    have "0 \<le> binary32 (binary32 (cur - target) * ?c)" "binary32 (binary32 (cur - target) * ?c) \<le> cur - target"
      by simp_all
    moreover have "binary32 (binary32 (cur - target) * ?c) = - ?m"
    proof -
      have "cur - target = - (target - cur)" by simp
      then show ?thesis
        by (simp only: binary32_minus mult_minus_left)
    qed
    ultimately show ?thesis by simp
  qed
  have db: "\<bar>binary32 (target - cur)\<bar> \<le> 2 ^ 101"
  proof -
    have "binary32 (of_int 1 * 2 powi 101) = of_int 1 * 2 powi 101"
      by (rule binary32_representable) simp_all
    then have r: "binary32 (2 ^ 101) = 2 ^ 101" by simp
    have "binary32 (target - cur) \<le> binary32 (2 ^ 101)" using D by (intro binary32_mono) linarith
    moreover have "binary32 (- (2 ^ 101)) \<le> binary32 (target - cur)" using D by (intro binary32_mono) linarith
    ultimately show ?thesis unfolding binary32_minus r by linarith
  qed
  have "\<bar>binary32 (target - cur) * ?c\<bar> \<le> 2 ^ 101 * 1"
    unfolding abs_mult using db by (intro mult_mono) simp_all
  then have 2: "\<bar>binary32 (target - cur) * ?c\<bar> \<le> FLT_MAX" using big by linarith
  have "\<bar>cur + ?m\<bar> \<le> \<bar>cur\<bar> + \<bar>?m\<bar>" by simp
  then have "\<bar>cur + ?m\<bar> \<le> 2 ^ 102" using mb D assms big by linarith
  then have 3: "\<bar>cur + ?m\<bar> \<le> FLT_MAX" using big by linarith
  show "lerp_f32 (Fin cur) (Fin target) (to_float (Fin 0.02)) = Fin (binary32 (cur + ?m))"
    unfolding lerp_f32_def lerp_const Fin_minus to_float_Fin[OF 1] Fin_times to_float_Fin[OF 2]
      Fin_plus to_float_Fin[OF 3] ..
  show "\<bar>binary32 (cur + ?m)\<bar> \<le> 2 ^ 100"
  proof (cases "cur \<le> target")
    case True
    from lerp_up[OF True, of ?c] binary32_abs_le_pow2_100[OF assms(1)] binary32_abs_le_pow2_100[OF assms(2)]
    show ?thesis by linarith
  next
    case False
    then have "target \<le> cur" by simp
    from lerp_down[OF this, of ?c] binary32_abs_le_pow2_100[OF assms(1)] binary32_abs_le_pow2_100[OF assms(2)]
    show ?thesis by linarith
  qed
qed

text \<open>
  A step that rounds away: at \<open>28 - 20 \<times> 2\<^sup>-\<^sup>1\<^sup>9\<close> with target 28 the increment is
  \<open>13421772 \<times> 2\<^sup>-\<^sup>4\<^sup>4\<close>, less than half the spacing \<open>2\<^sup>-\<^sup>1\<^sup>9\<close> of the binary32 numbers
  between 16 and 32.
\<close>

lemma lerp_stall:
  "lerp_f32 (Fin (28 - 20 / 2 ^ 19)) (Fin 28) (to_float (Fin 0.02)) = Fin (28 - 20 / 2 ^ 19)"
proof -
  have d: "binary32 (5 / 131072) = 5 / 131072"
    using binary32_representable[of "- 17" 5] by (simp add: power_int_minus)
  have m: "binary32 (26843545 / 35184372088832) = 3355443 / 4398046511104"
    using binary32_on_grid[of "- 44" "26843545 / 35184372088832"]
    by (simp add: power_int_minus round_even_def Let_def)
  have n: "binary32 (123145137894195 / 4398046511104) = 3670011 / 131072"
    using binary32_on_grid[of "- 19" "123145137894195 / 4398046511104"]
    by (simp add: power_int_minus round_even_def Let_def)
  show ?thesis
    unfolding lerp_f32_def lerp_const
    by (simp add: cfloat_ops d m n Let_def FLT_MAX_def)
qed

text \<open>The six fields are treated alike.\<close>

lemma params_lerp_fields:
  "p_a (params_lerp cur_p target_p) = lerp_f32 (p_a cur_p) (p_a target_p) (to_float (Fin 0.02))"
  "p_b (params_lerp cur_p target_p) = lerp_f32 (p_b cur_p) (p_b target_p) (to_float (Fin 0.02))"
  "p_c (params_lerp cur_p target_p) = lerp_f32 (p_c cur_p) (p_c target_p) (to_float (Fin 0.02))"
  "p_d (params_lerp cur_p target_p) = lerp_f32 (p_d cur_p) (p_d target_p) (to_float (Fin 0.02))"
  "p_e (params_lerp cur_p target_p) = lerp_f32 (p_e cur_p) (p_e target_p) (to_float (Fin 0.02))"
  "p_f (params_lerp cur_p target_p) = lerp_f32 (p_f cur_p) (p_f target_p) (to_float (Fin 0.02))"
  unfolding params_lerp_def Let_def by simp_all

text \<open>One step on binary32 numbers.\<close>

lemma lerp_f32_step:
  assumes r: "binary32 current = current" "binary32 target = target"
    and b: "\<bar>current\<bar> \<le> 2 ^ 100" "\<bar>target\<bar> \<le> 2 ^ 100"
  shows "\<exists>new. lerp_f32 (Fin current) (Fin target) (to_float (Fin 0.02)) = Fin new \<and>
           (current \<le> target \<longrightarrow> current \<le> new \<and> new \<le> target) \<and>
           (target \<le> current \<longrightarrow> target \<le> new \<and> new \<le> current) \<and>
           \<bar>target - new\<bar> \<le> \<bar>target - current\<bar> \<and>
           (1 / 2 ^ 100 \<le> \<bar>target - current\<bar> \<and>
            max \<bar>current\<bar> \<bar>target\<bar> \<le> 2 ^ 18 * \<bar>target - current\<bar> \<longrightarrow>
              \<bar>target - new\<bar> < \<bar>target - current\<bar>)"
proof -
  define new where
    "new = binary32 (current + binary32 (binary32 (target - current) * (5368709 / 268435456)))"
  have e: "lerp_f32 (Fin current) (Fin target) (to_float (Fin 0.02)) = Fin new"
    unfolding new_def by (rule lerp_f32_Fin(1)[OF b])
  have up: "current \<le> new \<and> new \<le> target" if "current \<le> target"
    using lerp_up[OF that, of "5368709 / 268435456"] unfolding r new_def by simp
  have down: "target \<le> new \<and> new \<le> current" if "target \<le> current"
    using lerp_down[OF that, of "5368709 / 268435456"] unfolding r new_def by simp
  have le: "\<bar>target - new\<bar> \<le> \<bar>target - current\<bar>"
  proof (cases "current \<le> target")
    case True
    with up show ?thesis by simp
  next
    case False
    then have "target \<le> current" by simp
    with down show ?thesis by simp
  qed
  have strict: "\<bar>target - new\<bar> < \<bar>target - current\<bar>"
    if h: "1 / 2 ^ 100 \<le> \<bar>target - current\<bar>"
          "max \<bar>current\<bar> \<bar>target\<bar> \<le> 2 ^ 18 * \<bar>target - current\<bar>"
  proof -
    have p: "(0::real) < 1 / 2 ^ 100" by simp
    consider "current < target" | "target < current" using h(1) p by fastforce
    then show ?thesis
    proof cases
      case 1
      then have a: "\<bar>target - current\<bar> = target - current" by simp
      from 1 h have "current < new"
        unfolding a new_def by (intro lerp_strict_up)
      moreover have "new \<le> target" using up 1 by simp
      ultimately show ?thesis using 1 by simp
    next
      case 2
      then have a: "\<bar>target - current\<bar> = current - target" by simp
      from 2 h have "new < current"
        unfolding a new_def by (intro lerp_strict_down)
      moreover have "target \<le> new" using down 2 by simp
      ultimately show ?thesis using 2 by simp
    qed
  qed
  from e up down le strict show ?thesis by blast
qed

text \<open>
  C7, as amended. \<^verbatim>\<open>params_lerp\<close> applies the same rounded step to each of the six
  fields. For binary32 numbers \<open>current\<close> and \<open>target\<close> of magnitude at most \<open>2\<^sup>1\<^sup>0\<^sup>0\<close>, one
  step yields a number between \<open>current\<close> and \<open>target\<close>: it never overshoots, the sign of
  \<open>target - current\<close> never flips, and \<open>|target - current|\<close> never increases. The
  distance strictly decreases whenever it is at least \<open>2\<^sup>-\<^sup>1\<^sup>0\<^sup>0\<close> and at least \<open>2\<^sup>-\<^sup>1\<^sup>8\<close> times
  the larger of \<open>|current|\<close> and \<open>|target|\<close>.
\<close>

theorem parameter_lerp_no_overshoot:
  "p_a (params_lerp cur_p target_p) = lerp_f32 (p_a cur_p) (p_a target_p) (to_float (Fin 0.02)) \<and>
   p_b (params_lerp cur_p target_p) = lerp_f32 (p_b cur_p) (p_b target_p) (to_float (Fin 0.02)) \<and>
   p_c (params_lerp cur_p target_p) = lerp_f32 (p_c cur_p) (p_c target_p) (to_float (Fin 0.02)) \<and>
   p_d (params_lerp cur_p target_p) = lerp_f32 (p_d cur_p) (p_d target_p) (to_float (Fin 0.02)) \<and>
   p_e (params_lerp cur_p target_p) = lerp_f32 (p_e cur_p) (p_e target_p) (to_float (Fin 0.02)) \<and>
   p_f (params_lerp cur_p target_p) = lerp_f32 (p_f cur_p) (p_f target_p) (to_float (Fin 0.02)) \<and>
   (\<forall>current target.
      binary32 current = current \<and> binary32 target = target \<and>
      \<bar>current\<bar> \<le> 2 ^ 100 \<and> \<bar>target\<bar> \<le> 2 ^ 100 \<longrightarrow>
      (\<exists>new. lerp_f32 (Fin current) (Fin target) (to_float (Fin 0.02)) = Fin new \<and>
         (current \<le> target \<longrightarrow> current \<le> new \<and> new \<le> target) \<and>
         (target \<le> current \<longrightarrow> target \<le> new \<and> new \<le> current) \<and>
         \<bar>target - new\<bar> \<le> \<bar>target - current\<bar> \<and>
         (1 / 2 ^ 100 \<le> \<bar>target - current\<bar> \<and>
          max \<bar>current\<bar> \<bar>target\<bar> \<le> 2 ^ 18 * \<bar>target - current\<bar> \<longrightarrow>
            \<bar>target - new\<bar> < \<bar>target - current\<bar>)))"
proof -
  note f = params_lerp_fields[of cur_p target_p]
  have s: "\<forall>current target.
      binary32 current = current \<and> binary32 target = target \<and>
      \<bar>current\<bar> \<le> 2 ^ 100 \<and> \<bar>target\<bar> \<le> 2 ^ 100 \<longrightarrow>
      (\<exists>new. lerp_f32 (Fin current) (Fin target) (to_float (Fin 0.02)) = Fin new \<and>
         (current \<le> target \<longrightarrow> current \<le> new \<and> new \<le> target) \<and>
         (target \<le> current \<longrightarrow> target \<le> new \<and> new \<le> current) \<and>
         \<bar>target - new\<bar> \<le> \<bar>target - current\<bar> \<and>
         (1 / 2 ^ 100 \<le> \<bar>target - current\<bar> \<and>
          max \<bar>current\<bar> \<bar>target\<bar> \<le> 2 ^ 18 * \<bar>target - current\<bar> \<longrightarrow>
            \<bar>target - new\<bar> < \<bar>target - current\<bar>))"
  proof (rule allI, rule allI, rule impI)
    fix current target :: real
    assume h: "binary32 current = current \<and> binary32 target = target \<and>
      \<bar>current\<bar> \<le> 2 ^ 100 \<and> \<bar>target\<bar> \<le> 2 ^ 100"
    then have "binary32 current = current" "binary32 target = target"
      "\<bar>current\<bar> \<le> 2 ^ 100" "\<bar>target\<bar> \<le> 2 ^ 100" by simp_all
    then show "\<exists>new. lerp_f32 (Fin current) (Fin target) (to_float (Fin 0.02)) = Fin new \<and>
         (current \<le> target \<longrightarrow> current \<le> new \<and> new \<le> target) \<and>
         (target \<le> current \<longrightarrow> target \<le> new \<and> new \<le> current) \<and>
         \<bar>target - new\<bar> \<le> \<bar>target - current\<bar> \<and>
         (1 / 2 ^ 100 \<le> \<bar>target - current\<bar> \<and>
          max \<bar>current\<bar> \<bar>target\<bar> \<le> 2 ^ 18 * \<bar>target - current\<bar> \<longrightarrow>
            \<bar>target - new\<bar> < \<bar>target - current\<bar>)"
      by (rule lerp_f32_step)
  qed
  from f s show ?thesis by (intro conjI)
qed

lemma binary32_28: "binary32 28 = 28"
proof -
  have "binary32 (of_int 7 * 2 powi 2) = of_int 7 * 2 powi 2"
    by (rule binary32_representable) simp_all
  then show ?thesis by simp
qed

theorem parameter_lerp_no_overshoot_witness:
  "binary32 0 = 0 \<and> binary32 28 = 28 \<and> \<bar>0::real\<bar> \<le> 2 ^ 100 \<and> \<bar>28::real\<bar> \<le> 2 ^ 100 \<and>
   (0::real) \<le> 28 \<and> 1 / 2 ^ 100 \<le> \<bar>28 - 0 :: real\<bar> \<and>
   max \<bar>0\<bar> \<bar>28\<bar> \<le> 2 ^ 18 * \<bar>28 - 0 :: real\<bar> \<and>
   (\<exists>new. lerp_f32 (Fin 0) (Fin 28) (to_float (Fin 0.02)) = Fin new \<and>
      0 \<le> new \<and> new \<le> 28 \<and> \<bar>28 - new\<bar> < \<bar>28 - 0\<bar>)"
proof -
  have t: "\<forall>current target.
      binary32 current = current \<and> binary32 target = target \<and>
      \<bar>current\<bar> \<le> 2 ^ 100 \<and> \<bar>target\<bar> \<le> 2 ^ 100 \<longrightarrow>
      (\<exists>new. lerp_f32 (Fin current) (Fin target) (to_float (Fin 0.02)) = Fin new \<and>
         (current \<le> target \<longrightarrow> current \<le> new \<and> new \<le> target) \<and>
         (target \<le> current \<longrightarrow> target \<le> new \<and> new \<le> current) \<and>
         \<bar>target - new\<bar> \<le> \<bar>target - current\<bar> \<and>
         (1 / 2 ^ 100 \<le> \<bar>target - current\<bar> \<and>
          max \<bar>current\<bar> \<bar>target\<bar> \<le> 2 ^ 18 * \<bar>target - current\<bar> \<longrightarrow>
            \<bar>target - new\<bar> < \<bar>target - current\<bar>))"
    using parameter_lerp_no_overshoot[of zero_params zero_params] by (elim conjE)
  have h: "binary32 0 = 0" "binary32 28 = 28" "\<bar>0::real\<bar> \<le> 2 ^ 100" "\<bar>28::real\<bar> \<le> 2 ^ 100"
    by (simp_all add: binary32_zero binary32_28)
  have g: "(0::real) \<le> 28" "1 / 2 ^ 100 \<le> \<bar>28 - 0 :: real\<bar>"
    "max \<bar>0\<bar> \<bar>28\<bar> \<le> 2 ^ 18 * \<bar>28 - 0 :: real\<bar>"
    by simp_all
  have hh: "binary32 0 = 0 \<and> binary32 28 = 28 \<and> \<bar>0::real\<bar> \<le> 2 ^ 100 \<and> \<bar>28::real\<bar> \<le> 2 ^ 100"
    using h by (intro conjI)
  from t[rule_format, OF hh] obtain new :: real where
    n: "lerp_f32 (Fin 0) (Fin 28) (to_float (Fin 0.02)) = Fin new \<and>
       ((0::real) \<le> 28 \<longrightarrow> 0 \<le> new \<and> new \<le> 28) \<and>
       ((28::real) \<le> 0 \<longrightarrow> 28 \<le> new \<and> new \<le> 0) \<and>
       \<bar>28 - new\<bar> \<le> \<bar>28 - 0\<bar> \<and>
       (1 / 2 ^ 100 \<le> \<bar>28 - 0 :: real\<bar> \<and> max \<bar>0\<bar> \<bar>28\<bar> \<le> 2 ^ 18 * \<bar>28 - 0 :: real\<bar>
          \<longrightarrow> \<bar>28 - new\<bar> < \<bar>28 - 0\<bar>)"
    by (elim exE)
  from n have n5: "1 / 2 ^ 100 \<le> \<bar>28 - 0 :: real\<bar> \<and> max \<bar>0\<bar> \<bar>28\<bar> \<le> 2 ^ 18 * \<bar>28 - 0 :: real\<bar>
          \<longrightarrow> \<bar>28 - new\<bar> < \<bar>28 - 0\<bar>"
    by (elim conjE)
  have gg: "1 / 2 ^ 100 \<le> \<bar>28 - 0 :: real\<bar> \<and> max \<bar>0\<bar> \<bar>28\<bar> \<le> 2 ^ 18 * \<bar>28 - 0 :: real\<bar>"
    using g(2,3) by (intro conjI)
  from n g(1) have "0 \<le> new" "new \<le> 28" by simp_all
  moreover from n5 gg have "\<bar>28 - new\<bar> < \<bar>28 - 0\<bar>" by (rule mp)
  moreover from n have "lerp_f32 (Fin 0) (Fin 28) (to_float (Fin 0.02)) = Fin new" by (elim conjE)
  ultimately have "\<exists>new. lerp_f32 (Fin 0) (Fin 28) (to_float (Fin 0.02)) = Fin new \<and>
      0 \<le> new \<and> new \<le> 28 \<and> \<bar>28 - new\<bar> < \<bar>28 - 0\<bar>"
    by (intro exI[of _ new] conjI)
  with h g show ?thesis by (intro conjI)
qed

text \<open>
  The claim as stated fails: closer to the target than that, a step can leave the
  current value where it is. At \<open>current = 28 - 20 \<times> 2\<^sup>-\<^sup>1\<^sup>9\<close>, a binary32 number, with
  target 28 the distance is about 320 times the \<^verbatim>\<open>float\<close> epsilon \<open>2\<^sup>-\<^sup>2\<^sup>3\<close>, and the step
  returns \<open>current\<close> unchanged.
\<close>

theorem parameter_lerp_stalls:
  "lerp_f32 (Fin (28 - 20 / 2 ^ 19)) (Fin 28) (to_float (Fin 0.02)) = Fin (28 - 20 / 2 ^ 19) \<and>
   binary32 (28 - 20 / 2 ^ 19) = 28 - 20 / 2 ^ 19 \<and> binary32 28 = 28 \<and>
   (1 / 2 ^ 23 :: real) < \<bar>28 - (28 - 20 / 2 ^ 19)\<bar>"
proof -
  have "binary32 (of_int 14680044 * 2 powi (- 19)) = of_int 14680044 * 2 powi (- 19)"
    by (rule binary32_representable) simp_all
  then have "binary32 (28 - 20 / 2 ^ 19) = 28 - 20 / 2 ^ 19"
    by (simp add: power_int_minus)
  moreover have "(1 / 2 ^ 23 :: real) < \<bar>28 - (28 - 20 / 2 ^ 19)\<bar>" by simp
  ultimately show ?thesis using lerp_stall binary32_28 by (intro conjI)
qed

section \<open>The integrator: proofs\<close>

lemma wrap_ex: "wrap_int32 2147484100 = - 2147483196"
  by (simp add: wrap_int32_def signed_take_bit_eq_take_bit_shift take_bit_eq_mod)

lemma hash_ex: "respawn_hash 1618300 = Fin (- 196 / 1000)"
  by (simp add: respawn_hash_def wrap_ex c_rem_def float_of_int_def cfloat_ops)

text \<open>
  C9. The claim is that an out-of-bound particle is respawned with three equal
  coordinates within \<open>[-2, 2]\<close> and zero velocity. For particle 1618300, which exists
  under the default particle count of 2000000, the product \<^verbatim>\<open>i * 1327\<close> exceeds
  \<open>2\<^sup>3\<^sup>1 - 1\<close>; wrapped to 32 bits it is negative, the remainder is \<open>-196\<close>, and the
  particle injected at \<open>(1000, 0, 0)\<close> is respawned at \<open>-2.784\<close> on every axis.
\<close>

theorem respawn_leaves_range:
  "bounds_check 1618300 (Fin 1000) (Fin 0) (Fin 0) dx dy dz =
     \<lparr>pos_x = Fin (- 2.784), pos_y = Fin (- 2.784), pos_z = Fin (- 2.784),
      vel_x = Fin 0, vel_y = Fin 0, vel_z = Fin 0\<rparr>"
  by (simp add: bounds_check_def out_of_bounds_def MAX_COORD_def hash_ex cfloat_ops Let_def)

text \<open>
  For the indices whose product does not overflow, the respawn position is as the
  claim describes.
\<close>

lemma wrap_id: "- (2 ^ 31) \<le> n \<Longrightarrow> n < 2 ^ 31 \<Longrightarrow> wrap_int32 n = n"
  unfolding wrap_int32_def by (simp add: signed_take_bit_int_eq_self)

lemma respawn_in_range:
  assumes "0 \<le> i" "i * 1327 < 2 ^ 31" "out_of_bounds x y z"
  shows "\<exists>v. bounds_check i x y z dx dy dz =
           \<lparr>pos_x = Fin v, pos_y = Fin v, pos_z = Fin v,
            vel_x = Fin 0, vel_y = Fin 0, vel_z = Fin 0\<rparr> \<and> - 2 \<le> v \<and> v < 2"
proof -
  have w: "wrap_int32 (i * 1327) = i * 1327"
    using assms by (intro wrap_id) auto
  define k where "k = (i * 1327) mod 1000"
  have k: "0 \<le> k" "k < 1000" by (simp_all add: k_def)
  have c: "c_rem (i * 1327) 1000 = k"
    using assms by (simp add: c_rem_nonneg k_def)
  have h: "respawn_hash i = Fin (of_int k / 1000)"
    by (simp add: respawn_hash_def w c float_of_int_def cfloat_ops)
  have "- 2 \<le> (real_of_int k / 1000 - 0.5) * 4" "(real_of_int k / 1000 - 0.5) * 4 < 2"
    using k by simp_all
  then show ?thesis
    using assms(3) by (simp add: bounds_check_def h cfloat_ops Let_def)
qed

text \<open>
  What the check guarantees on its own: the stored \<open>x\<close> is a number of magnitude at
  most 80, and \<open>y\<close> and \<open>z\<close> are each of magnitude at most 80 or not-a-number. From a
  finite state, with finite parameters, the pass stores finite coordinates within the
  bound.
\<close>

lemma c_rem_bounds:
  assumes "0 < b"
  shows "- b < c_rem a b \<and> c_rem a b < b"
proof (cases "0 \<le> a")
  case True
  have "0 \<le> a mod b" "a mod b < b" using assms by simp_all
  moreover have "c_rem a b = a mod b" using True assms by (simp add: c_rem_nonneg)
  ultimately show ?thesis using assms by linarith
next
  case False
  have "0 \<le> (- a) mod b" "(- a) mod b < b" using assms by simp_all
  moreover have "c_rem a b = - ((- a) mod b)" using False assms by (simp add: c_rem_def)
  ultimately show ?thesis using assms by linarith
qed

lemma respawn_hash_range: "\<exists>v. respawn_hash i = Fin v \<and> - 1 < v \<and> v < 1"
proof -
  define k where "k = c_rem (wrap_int32 (i * 1327)) 1000"
  have "- 1000 < k \<and> k < 1000"
    unfolding k_def by (rule c_rem_bounds) simp
  then have "- 1 < real_of_int k / 1000" "real_of_int k / 1000 < 1" by simp_all
  moreover have "respawn_hash i = Fin (real_of_int k / 1000)"
    by (simp add: respawn_hash_def k_def float_of_int_def cfloat_ops)
  ultimately show ?thesis by blast
qed

lemma bounds_check_stored:
  "pos_x (bounds_check i x y z dx dy dz) \<le> MAX_COORD \<and>
   - MAX_COORD \<le> pos_x (bounds_check i x y z dx dy dz) \<and>
   (isnan (pos_y (bounds_check i x y z dx dy dz)) \<or>
      \<bar>pos_y (bounds_check i x y z dx dy dz)\<bar> \<le> MAX_COORD) \<and>
   (isnan (pos_z (bounds_check i x y z dx dy dz)) \<or>
      \<bar>pos_z (bounds_check i x y z dx dy dz)\<bar> \<le> MAX_COORD)"
proof (cases "out_of_bounds x y z")
  case True
  obtain v where v: "respawn_hash i = Fin v" "- 1 < v" "v < 1"
    using respawn_hash_range by blast
  then show ?thesis using True
    by (simp add: bounds_check_def MAX_COORD_def cfloat_ops Let_def abs_le_iff)
next
  case False
  then show ?thesis
    by (cases x; cases y; cases z)
       (auto simp: bounds_check_def out_of_bounds_def MAX_COORD_def cfloat_ops)
qed



text \<open>
  The check reads \<^verbatim>\<open>isnan(x)\<close> only, and every comparison with a not-a-number is
  false: handed a position whose \<open>y\<close> and \<open>z\<close> are not-a-number and whose \<open>x\<close> is a
  number within the bound, it would store the position. The rest of this section
  shows that the integration pass never hands it such a position.
\<close>

lemma bounds_check_reads_x_only:
  "\<not> out_of_bounds (Fin 1) NaN NaN \<and>
   bounds_check i (Fin 1) NaN NaN dx dy dz =
     \<lparr>pos_x = Fin 1, pos_y = NaN, pos_z = NaN, vel_x = dx, vel_y = dy, vel_z = dz\<rparr>"
  by (simp add: bounds_check_def out_of_bounds_def MAX_COORD_def cfloat_ops)

text \<open>The body of the physics loop is the Euler step followed by the bounds check.\<close>

lemma particle_update_euler:
  "particle_update cur_ty prev_ty cur_p blend i x y z =
     (case euler_step cur_ty prev_ty cur_p blend x y z of
        ((x1, y1, z1), (dx, dy, dz)) \<Rightarrow> bounds_check i x1 y1 z1 dx dy dz)"
  by (simp add: particle_update_def euler_step_def Let_def split: prod.splits)

















section \<open>The heatmap: proofs\<close>

text \<open>
  C2. The claim is that at each breakpoint the branch below and the branch at or
  above it agree. They do at \<open>0.2\<close>. At \<open>0.5\<close> the second branch gives blue \<open>0.01\<close>
  and the third gives \<open>0\<close>; at \<open>0.8\<close> the third branch gives red \<open>0.99\<close> and the
  fourth gives \<open>1\<close>: the slope \<open>3.3\<close> over a segment of width \<open>0.3\<close> stops short of 1.
  The function itself jumps accordingly between \<open>0.4999\<close> and \<open>0.5\<close> and between
  \<open>0.7999\<close> and \<open>0.8\<close>.
\<close>

theorem heatmap_jumps:
  "heat_seg1 (Fin 0.2) = (Fin 0, Fin 1, Fin 1) \<and> heat_seg2 (Fin 0.2) = (Fin 0, Fin 1, Fin 1) \<and>
   heat_seg2 (Fin 0.5) = (Fin 0, Fin 1, Fin 0.01) \<and> heat_seg3 (Fin 0.5) = (Fin 0, Fin 1, Fin 0) \<and>
   heat_seg3 (Fin 0.8) = (Fin 0.99, Fin 1, Fin 0) \<and> heat_seg4 (Fin 0.8) = (Fin 1, Fin 1, Fin 0) \<and>
   get_heatmap_color (Fin 0.4999) = (Fin 0, Fin 1, Fin 0.01033) \<and>
   get_heatmap_color (Fin 0.5) = (Fin 0, Fin 1, Fin 0) \<and>
   get_heatmap_color (Fin 0.7999) = (Fin 0.98967, Fin 1, Fin 0) \<and>
   get_heatmap_color (Fin 0.8) = (Fin 1, Fin 1, Fin 0)"
  by (simp add: heat_seg1_def heat_seg2_def heat_seg3_def heat_seg4_def get_heatmap_color_def
        heat_clamp_def cfloat_ops Let_def)

lemma heat_clamp_Fin: "heat_clamp (Fin t) = Fin (min 1 (max 0 t))"
  by (simp add: heat_clamp_def cfloat_ops Let_def min_def max_def)

lemma unit_triple:
  "c = (Fin r, Fin g, Fin b) \<Longrightarrow> 0 \<le> r \<Longrightarrow> r \<le> 1 \<Longrightarrow> 0 \<le> g \<Longrightarrow> g \<le> 1 \<Longrightarrow> 0 \<le> b \<Longrightarrow> b \<le> 1
     \<Longrightarrow> \<exists>r g b. c = (Fin r, Fin g, Fin b) \<and>
           0 \<le> r \<and> r \<le> 1 \<and> 0 \<le> g \<and> g \<le> 1 \<and> 0 \<le> b \<and> b \<le> 1"
  by blast

lemma heatmap_Fin:
  "\<exists>r g b. get_heatmap_color (Fin t) = (Fin r, Fin g, Fin b) \<and>
       0 \<le> r \<and> r \<le> 1 \<and> 0 \<le> g \<and> g \<le> 1 \<and> 0 \<le> b \<and> b \<le> 1"
proof -
  define u where "u = min 1 (max 0 t)"
  have u: "0 \<le> u" "u \<le> 1" by (simp_all add: u_def)
  have g: "get_heatmap_color (Fin t) =
      (if u < 0.2 then (Fin 0, Fin (u * 5), Fin 1)
       else if u < 0.5 then (Fin 0, Fin 1, Fin (1 - (u - 0.2) * 3.3))
       else if u < 0.8 then (Fin ((u - 0.5) * 3.3), Fin 1, Fin 0)
       else (Fin 1, Fin (1 - (u - 0.8) * 5), Fin ((u - 0.8) * 5)))"
    unfolding get_heatmap_color_def heat_clamp_Fin u_def[symmetric] Let_def
    by (simp add: heat_seg1_def heat_seg2_def heat_seg3_def heat_seg4_def cfloat_ops)
  consider "u < 0.2" | "0.2 \<le> u" "u < 0.5" | "0.5 \<le> u" "u < 0.8" | "0.8 \<le> u"
    by linarith
  then show ?thesis
  proof cases
    case 1
    then have "get_heatmap_color (Fin t) = (Fin 0, Fin (u * 5), Fin 1)" by (simp add: g)
    then show ?thesis by (rule unit_triple) (use 1 u in simp_all)
  next
    case 2
    then have "get_heatmap_color (Fin t) = (Fin 0, Fin 1, Fin (1 - (u - 0.2) * 3.3))"
      by (simp add: g)
    then show ?thesis by (rule unit_triple) (use 2 u in simp_all)
  next
    case 3
    then have "get_heatmap_color (Fin t) = (Fin ((u - 0.5) * 3.3), Fin 1, Fin 0)"
      by (simp add: g)
    then show ?thesis by (rule unit_triple) (use 3 u in simp_all)
  next
    case 4
    then have "get_heatmap_color (Fin t) = (Fin 1, Fin (1 - (u - 0.8) * 5), Fin ((u - 0.8) * 5))"
      by (simp add: g)
    then show ?thesis by (rule unit_triple) (use 4 u in simp_all)
  qed
qed

lemma depth_fade_Fin: "\<exists>d. depth_fade (Fin rz) = Fin d \<and> 0 < d \<and> d \<le> 1"
proof -
  have p: "1 \<le> 1 + \<bar>rz\<bar> * 0.01" by simp
  then have "depth_fade (Fin rz) = Fin (1 / (1 + \<bar>rz\<bar> * 0.01))"
    by (simp add: depth_fade_def cfloat_ops)
  moreover have "0 < 1 / (1 + \<bar>rz\<bar> * 0.01)" using p by simp
  moreover have "1 / (1 + \<bar>rz\<bar> * 0.01) \<le> 1" using p by simp
  ultimately show ?thesis by blast
qed


lemma particle_contribution_Fin:
  "\<exists>cr cg cb. particle_contribution (Fin t) (Fin rz) = (Fin cr, Fin cg, Fin cb) \<and>
       0 \<le> cr \<and> cr \<le> 1 \<and> 0 \<le> cg \<and> cg \<le> 1 \<and> 0 \<le> cb \<and> cb \<le> 1"
proof -
  obtain r g b where c: "get_heatmap_color (Fin t) = (Fin r, Fin g, Fin b)"
      "0 \<le> r" "r \<le> 1" "0 \<le> g" "g \<le> 1" "0 \<le> b" "b \<le> 1"
    using heatmap_Fin by blast
  obtain d where d: "depth_fade (Fin rz) = Fin d" "0 < d" "d \<le> 1"
    using depth_fade_Fin by blast
  have m: "0 \<le> v * d" "v * d \<le> 1" if "0 \<le> v" "v \<le> 1" for v
    using that d mult_le_one[of v d] by simp_all
  have "particle_contribution (Fin t) (Fin rz) = (Fin (r * d), Fin (g * d), Fin (b * d))"
    by (simp add: particle_contribution_def c d cfloat_ops)
  then show ?thesis
    by (rule unit_triple) (use c m in simp_all)
qed

text \<open>
  C10. For every real \<open>t\<close> the heatmap returns red, green and blue within \<open>[0, 1]\<close>;
  the depth fade of every real depth is within \<open>(0, 1]\<close>; so each of the three values a
  particle adds to the accumulation buffer is within \<open>[0, 1]\<close>.
\<close>

theorem heatmap_in_unit_range:
  "(\<exists>r g b. get_heatmap_color (Fin t) = (Fin r, Fin g, Fin b) \<and>
       0 \<le> r \<and> r \<le> 1 \<and> 0 \<le> g \<and> g \<le> 1 \<and> 0 \<le> b \<and> b \<le> 1) \<and>
   (\<exists>d. depth_fade (Fin rz) = Fin d \<and> 0 < d \<and> d \<le> 1) \<and>
   (\<exists>cr cg cb. particle_contribution (Fin t) (Fin rz) = (Fin cr, Fin cg, Fin cb) \<and>
       0 \<le> cr \<and> cr \<le> 1 \<and> 0 \<le> cg \<and> cg \<le> 1 \<and> 0 \<le> cb \<and> cb \<le> 1)"
  using heatmap_Fin[of t] depth_fade_Fin[of rz] particle_contribution_Fin[of t rz]
  by (intro conjI)

section \<open>Rasterization: proofs\<close>

text \<open>
  With finite particle data and a positive smoothed maximum speed, every
  contribution the render loop adds is within \<open>[0, 1]\<close>, so every entry of the
  accumulation buffer is a non-negative number, at most the number of particles
  rendered. These are the values the tone mapper reads.
\<close>

lemma render_particle_cases:
  assumes "smooth_max_spd cam = Fin s" "0 < s"
  shows "render_particle (Fin c) (Fin sn) cam (finite_particles X Y Z U V W) i = Undefined_cast \<or>
         render_particle (Fin c) (Fin sn) cam (finite_particles X Y Z U V W) i = Dropped \<or>
         (\<exists>idx cr cg cb.
            render_particle (Fin c) (Fin sn) cam (finite_particles X Y Z U V W) i
              = Hit idx (Fin cr, Fin cg, Fin cb) \<and>
            0 \<le> cr \<and> cr \<le> 1 \<and> 0 \<le> cg \<and> cg \<le> 1 \<and> 0 \<le> cb \<and> cb \<le> 1)"
proof -
  define spd where "spd = sqrt (U i * U i + V i * V i + W i * W i)"
  define rz where "rz = X i * sn + Z i * c"
  have sp: "sqrtf (Fin (U i) * Fin (U i) + Fin (V i) * Fin (V i) + Fin (W i) * Fin (W i)) = Fin spd"
    by (simp add: cfloat_ops spd_def)
  have t: "Fin spd / Fin s = Fin (spd / s)" using assms(2) by (simp add: cfloat_ops)
  have r: "Fin (X i) * Fin sn + Fin (Z i) * Fin c = Fin rz" by (simp add: cfloat_ops rz_def)
  obtain cr cg cb where pc: "particle_contribution (Fin (spd / s)) (Fin rz) = (Fin cr, Fin cg, Fin cb)"
      "0 \<le> cr" "cr \<le> 1" "0 \<le> cg" "cg \<le> 1" "0 \<le> cb" "cb \<le> 1"
    using particle_contribution_Fin[of "spd / s" rz] by blast
  show ?thesis
    unfolding render_particle_def Let_def
    by (auto simp: finite_particles_def sp[unfolded finite_particles_def] t r assms(1) pc
          split: option.splits)
qed


lemma accumulate_range:
  assumes "\<forall>j. \<exists>v. buf j = Fin v \<and> 0 \<le> v \<and> v \<le> b"
    and "0 \<le> cr" "cr \<le> 1" "0 \<le> cg" "cg \<le> 1" "0 \<le> cb" "cb \<le> 1"
  shows "\<forall>j. \<exists>v. accumulate idx (Fin cr, Fin cg, Fin cb) buf j = Fin v \<and> 0 \<le> v \<and> v \<le> b + 1"
proof
  fix j
  obtain v where v: "buf j = Fin v" "0 \<le> v" "v \<le> b" using assms(1) by blast
  have "accumulate idx (Fin cr, Fin cg, Fin cb) buf j =
          Fin (v + (if j = idx + 2 then cb else if j = idx + 1 then cg
                    else if j = idx then cr else 0))"
    using v(1) by (auto simp: accumulate_def cfloat_ops)
  moreover have "0 \<le> v + (if j = idx + 2 then cb else if j = idx + 1 then cg
                    else if j = idx then cr else 0)"
    using v assms(2-7) by simp
  moreover have "v + (if j = idx + 2 then cb else if j = idx + 1 then cg
                    else if j = idx then cr else 0) \<le> b + 1"
    using v assms(2-7) by simp
  ultimately show "\<exists>v. accumulate idx (Fin cr, Fin cg, Fin cb) buf j = Fin v \<and> 0 \<le> v \<and> v \<le> b + 1"
    by blast
qed

lemma render_buffer_nonneg:
  assumes "smooth_max_spd cam = Fin s" "0 < s"
    and "render_upto (Fin c) (Fin sn) cam (finite_particles X Y Z U V W) n = Some buf"
  shows "\<forall>j. \<exists>v. buf j = Fin v \<and> 0 \<le> v \<and> v \<le> real n"
  using assms(3)
proof (induction n arbitrary: buf)
  case 0
  then show ?case by auto
next
  case (Suc n)
  from Suc.prems obtain buf0 where
    b0: "render_upto (Fin c) (Fin sn) cam (finite_particles X Y Z U V W) n = Some buf0"
    by (auto split: option.splits)
  have r0: "\<forall>j. \<exists>v. buf0 j = Fin v \<and> 0 \<le> v \<and> v \<le> real n" by (rule Suc.IH[OF b0])
  consider "render_particle (Fin c) (Fin sn) cam (finite_particles X Y Z U V W) n = Undefined_cast"
    | "render_particle (Fin c) (Fin sn) cam (finite_particles X Y Z U V W) n = Dropped"
    | idx cr cg cb where
        "render_particle (Fin c) (Fin sn) cam (finite_particles X Y Z U V W) n
           = Hit idx (Fin cr, Fin cg, Fin cb)"
        "0 \<le> cr" "cr \<le> 1" "0 \<le> cg" "cg \<le> 1" "0 \<le> cb" "cb \<le> 1"
    using render_particle_cases[OF assms(1,2), of c sn X Y Z U V W n] by blast
  then show ?case
  proof cases
    case 1
    with Suc.prems b0 show ?thesis by simp
  next
    case 2
    with Suc.prems b0 have "buf = buf0" by simp
    show ?thesis
    proof
      fix j
      obtain v where "buf0 j = Fin v" "0 \<le> v" "v \<le> real n" using r0 by blast
      then show "\<exists>v. buf j = Fin v \<and> 0 \<le> v \<and> v \<le> real (Suc n)"
        using \<open>buf = buf0\<close> by simp
    qed
  next
    case 3
    with Suc.prems b0 have "buf = accumulate idx (Fin cr, Fin cg, Fin cb) buf0" by simp
    with accumulate_range[OF r0 3(2-7), of idx] show ?thesis by (simp add: add.commute)
  qed
qed

section \<open>The statistics passes: proofs\<close>

lemma pass1_150:
  "stats_pass1 (Fin 1) (Fin 0) 150 (uniform_particles 1 1 0) 0 (Fin 0, Fin 0, Fin 0)
     = (Fin 2, Fin 2, Fin 0)"
  by (simp add: stats_pass1.simps stats_pass2.simps uniform_particles_def sample_stride_def cfloat_ops Let_def)

lemma pass2_150:
  "stats_pass2 (Fin 1) (Fin 0) 150 (uniform_particles 1 1 0) (Fin 2) (Fin 2) 0 (Fin 0, Fin 0)
     = (Fin 2, Fin 2)"
  by (simp add: stats_pass1.simps stats_pass2.simps uniform_particles_def sample_stride_def cfloat_ops Let_def)

text \<open>
  C3. The claim is that the centroid is the sum over the sampled particles divided
  by their number, for every particle count. With 150 particles, all at \<open>(1, 1, 0)\<close>,
  the loops sample the indices 0 and 100 while \<^verbatim>\<open>num_samples\<close> is \<open>150 / 100 = 1\<close>:
  the centroid comes out as \<open>(2, 2)\<close> instead of \<open>(1, 1)\<close>, and the mean absolute
  deviation as 2 instead of 0.
\<close>

theorem centroid_not_sample_mean:
  "frame_stats 0 150 (uniform_particles 1 1 0) =
     \<lparr>center_x = Fin 2, center_y = Fin 2, mean_dist_x = Fin 2, mean_dist_y = Fin 2,
      max_spd = Fin 0\<rparr>"
  by (simp add: frame_stats_def float_of_int_def pass1_150 pass2_150 sample_stride_def
        cfloat_ops Let_def)


text \<open>
  When the particle count is a positive multiple of the stride, \<^verbatim>\<open>num_samples\<close> is the
  number of sampled particles: the centre is the mean of the rotated \<open>x\<close> and of \<open>y\<close>
  over the samples, and the second pass takes the mean absolute deviation from that
  centre.
\<close>

lemma pass1_sums:
  assumes "k \<le> K"
  shows "\<exists>m'. stats_pass1 (Fin c) (Fin s) (100 * K) (finite_particles X Y Z U V W) (100 * k)
              (Fin sx, Fin sy, Fin m) =
           (Fin (sx + (\<Sum>j = k..<K. X (100 * j) * c - Z (100 * j) * s)),
            Fin (sy + (\<Sum>j = k..<K. Y (100 * j))), Fin m')"
  using assms
proof (induction "K - k" arbitrary: k sx sy m)
  case 0
  then have "k = K" by simp
  then show ?case by (subst stats_pass1.simps) simp
next
  case (Suc d)
  then have lt: "k < K" and d: "d = K - Suc k" and le: "Suc k \<le> K" by simp_all
  define spd where "spd = sqrt (U (100 * k) * U (100 * k) + V (100 * k) * V (100 * k)
                                  + W (100 * k) * W (100 * k))"
  define m1 where "m1 = (if m < spd then spd else m)"
  have e: "100 * Suc k = 100 * k + 100" by simp
  have step: "stats_pass1 (Fin c) (Fin s) (100 * K) (finite_particles X Y Z U V W) (100 * k)
              (Fin sx, Fin sy, Fin m) =
        stats_pass1 (Fin c) (Fin s) (100 * K) (finite_particles X Y Z U V W) (100 * Suc k)
              (Fin (sx + (X (100 * k) * c - Z (100 * k) * s)), Fin (sy + Y (100 * k)), Fin m1)"
    unfolding e using lt
    by (subst stats_pass1.simps)
       (simp add: finite_particles_def sample_stride_def cfloat_ops Let_def spd_def m1_def
          del: mult_Suc_right)
  obtain m' where "stats_pass1 (Fin c) (Fin s) (100 * K) (finite_particles X Y Z U V W) (100 * Suc k)
              (Fin (sx + (X (100 * k) * c - Z (100 * k) * s)), Fin (sy + Y (100 * k)), Fin m1) =
           (Fin (sx + (X (100 * k) * c - Z (100 * k) * s)
                   + (\<Sum>j = Suc k..<K. X (100 * j) * c - Z (100 * j) * s)),
            Fin (sy + Y (100 * k) + (\<Sum>j = Suc k..<K. Y (100 * j))), Fin m')"
    using Suc.hyps(1)[OF d le] by blast
  then show ?case
    unfolding step using lt by (auto simp: sum.atLeast_Suc_lessThan algebra_simps)
qed


lemma pass2_sums:
  assumes "k \<le> K"
  shows "stats_pass2 (Fin c) (Fin s) (100 * K) (finite_particles X Y Z U V W) (Fin cx) (Fin cy)
              (100 * k) (Fin sx, Fin sy) =
           (Fin (sx + (\<Sum>j = k..<K. \<bar>X (100 * j) * c - Z (100 * j) * s - cx\<bar>)),
            Fin (sy + (\<Sum>j = k..<K. \<bar>Y (100 * j) - cy\<bar>)))"
  using assms
proof (induction "K - k" arbitrary: k sx sy)
  case 0
  then have "k = K" by simp
  then show ?case by (subst stats_pass2.simps) simp
next
  case (Suc d)
  then have lt: "k < K" and d: "d = K - Suc k" and le: "Suc k \<le> K" by simp_all
  have e: "100 * Suc k = 100 * k + 100" by simp
  have step: "stats_pass2 (Fin c) (Fin s) (100 * K) (finite_particles X Y Z U V W) (Fin cx) (Fin cy)
              (100 * k) (Fin sx, Fin sy) =
        stats_pass2 (Fin c) (Fin s) (100 * K) (finite_particles X Y Z U V W) (Fin cx) (Fin cy)
              (100 * Suc k)
              (Fin (sx + \<bar>X (100 * k) * c - Z (100 * k) * s - cx\<bar>), Fin (sy + \<bar>Y (100 * k) - cy\<bar>))"
    unfolding e using lt
    by (subst stats_pass2.simps)
       (simp add: finite_particles_def sample_stride_def cfloat_ops Let_def
          del: mult_Suc_right)
  show ?case
    unfolding step Suc.hyps(1)[OF d le] using lt
    by (simp add: sum.atLeast_Suc_lessThan algebra_simps)
qed

lemma stats_mean_when_divisible:
  fixes frame :: int and K :: nat and X Y Z :: "nat \<Rightarrow> real"
  assumes "0 < K"
  defines "c \<equiv> cos (real_of_int frame * 0.005)" and "s \<equiv> sin (real_of_int frame * 0.005)"
  defines "cx \<equiv> (\<Sum>j = 0..<K. X (100 * j) * c - Z (100 * j) * s) / real K"
    and "cy \<equiv> (\<Sum>j = 0..<K. Y (100 * j)) / real K"
  shows "center_x (frame_stats frame (100 * K) (finite_particles X Y Z U V W)) = Fin cx"
    and "center_y (frame_stats frame (100 * K) (finite_particles X Y Z U V W)) = Fin cy"
    and "mean_dist_x (frame_stats frame (100 * K) (finite_particles X Y Z U V W)) =
           Fin ((\<Sum>j = 0..<K. \<bar>X (100 * j) * c - Z (100 * j) * s - cx\<bar>) / real K)"
    and "mean_dist_y (frame_stats frame (100 * K) (finite_particles X Y Z U V W)) =
           Fin ((\<Sum>j = 0..<K. \<bar>Y (100 * j) - cy\<bar>) / real K)"
proof -
  have t: "cosf (float_of_int frame * Fin 0.005) = Fin c" "sinf (float_of_int frame * Fin 0.005) = Fin s"
    by (simp_all add: float_of_int_def cfloat_ops c_def s_def)
  have n: "(100 * K) div sample_stride = K" by (simp add: sample_stride_def)
  obtain m' where p1: "stats_pass1 (Fin c) (Fin s) (100 * K) (finite_particles X Y Z U V W) 0
              (Fin 0, Fin 0, Fin 0) =
           (Fin (\<Sum>j = 0..<K. X (100 * j) * c - Z (100 * j) * s),
            Fin (\<Sum>j = 0..<K. Y (100 * j)), Fin m')"
    using pass1_sums[of 0 K c s X Y Z U V W 0 0 0] by auto
  have d: "Fin a / float_of_int (int K) = Fin (a / real K)" for a
    using assms(1) by (simp add: float_of_int_def cfloat_ops)
  have p2: "stats_pass2 (Fin c) (Fin s) (100 * K) (finite_particles X Y Z U V W) (Fin cx) (Fin cy)
              0 (Fin 0, Fin 0) =
           (Fin (\<Sum>j = 0..<K. \<bar>X (100 * j) * c - Z (100 * j) * s - cx\<bar>),
            Fin (\<Sum>j = 0..<K. \<bar>Y (100 * j) - cy\<bar>))"
    using pass2_sums[of 0 K c s X Y Z U V W cx cy 0 0] by simp
  have f: "frame_stats frame (100 * K) (finite_particles X Y Z U V W) =
      \<lparr>center_x = Fin cx, center_y = Fin cy,
       mean_dist_x = Fin ((\<Sum>j = 0..<K. \<bar>X (100 * j) * c - Z (100 * j) * s - cx\<bar>) / real K),
       mean_dist_y = Fin ((\<Sum>j = 0..<K. \<bar>Y (100 * j) - cy\<bar>) / real K),
       max_spd = Fin m'\<rparr>"
    unfolding frame_stats_def Let_def t n p1 prod.case d cx_def[symmetric] cy_def[symmetric] p2
    by simp
  show "center_x (frame_stats frame (100 * K) (finite_particles X Y Z U V W)) = Fin cx"
    and "center_y (frame_stats frame (100 * K) (finite_particles X Y Z U V W)) = Fin cy"
    and "mean_dist_x (frame_stats frame (100 * K) (finite_particles X Y Z U V W)) =
           Fin ((\<Sum>j = 0..<K. \<bar>X (100 * j) * c - Z (100 * j) * s - cx\<bar>) / real K)"
    and "mean_dist_y (frame_stats frame (100 * K) (finite_particles X Y Z U V W)) =
           Fin ((\<Sum>j = 0..<K. \<bar>Y (100 * j) - cy\<bar>) / real K)"
    unfolding f by simp_all
qed


section \<open>The camera: proofs\<close>











section \<open>Tone mapping: proofs\<close>






















end
